theory Spec2Isabelle
  imports Main "HOL-Library.Char_ord" "HOL-Library.List_Lexorder" "HOL-Library.AList"
begin

section \<open>Python string primitives used by the scripts\<close>

text \<open>
  Alignment files are ASCII text. A Python \<open>str\<close> is modelled as a \<open>string\<close>
  (a list of characters); the character predicates below are the ASCII restriction of
  Python's \<open>str.islower\<close>, \<open>str.isupper\<close> and \<open>str.isspace\<close>.
\<close>

definition TAB :: char where
  "TAB = CHR 0x09"

definition NL :: char where
  "NL = CHR 0x0A"

definition islower :: "char \<Rightarrow> bool" where
  "islower c = (97 \<le> (of_char c :: nat) \<and> (of_char c :: nat) \<le> 122)"

definition isupper :: "char \<Rightarrow> bool" where
  "isupper c = (65 \<le> (of_char c :: nat) \<and> (of_char c :: nat) \<le> 90)"

text \<open>The number of characters of a row that count as alignment columns.\<close>

definition visible :: "string \<Rightarrow> nat" where
  "visible s = length (filter (\<lambda>c. \<not> islower c) s)"

text \<open>A row with the lowercase characters after its last column removed.\<close>

definition drop_trailing_lower :: "string \<Rightarrow> string" where
  "drop_trailing_lower s = rev (dropWhile islower (rev s))"

section \<open>Column Splitter: \<open>split_sequence_by_chains\<close>\<close>

text \<open>
  The inner \<open>while\<close> loop of \<open>split_sequence_by_chains\<close> (and of its copy
  \<open>split_input_by_chains\<close>). The last argument is \<open>sequence[current_pos:]\<close>; the
  result is \<open>chain_seq\<close> and the part of the sequence not yet read.
\<close>

fun take_chain :: "int \<Rightarrow> int \<Rightarrow> string \<Rightarrow> string \<Rightarrow> string \<times> string" where
  "take_chain target_length actual_length chain_seq [] = (chain_seq, [])"
| "take_chain target_length actual_length chain_seq (c # cs) =
     (if actual_length < target_length
      then take_chain target_length
             (if \<not> islower c then actual_length + 1 else actual_length)
             (chain_seq @ [c]) cs
      else (chain_seq, c # cs))"

text \<open>The outer \<open>for target_length in lengths\<close> loop, with \<open>result\<close> threaded through.\<close>

fun split_loop :: "string \<Rightarrow> int list \<Rightarrow> string list \<Rightarrow> string list" where
  "split_loop rest [] result = result"
| "split_loop rest (target_length # lengths) result =
     (case take_chain target_length 0 [] rest of
        (chain_seq, rest') \<Rightarrow> split_loop rest' lengths (result @ [chain_seq]))"

definition split_sequence_by_chains :: "string \<Rightarrow> int list \<Rightarrow> string list" where
  "split_sequence_by_chains sequence lengths = split_loop sequence lengths []"

section \<open>More string primitives\<close>

definition isspace :: "char \<Rightarrow> bool" where
  "isspace c = ((9 \<le> (of_char c :: nat) \<and> (of_char c :: nat) \<le> 13)
              \<or> (28 \<le> (of_char c :: nat) \<and> (of_char c :: nat) \<le> 32))"

definition isdigit :: "char \<Rightarrow> bool" where
  "isdigit c = (48 \<le> (of_char c :: nat) \<and> (of_char c :: nat) \<le> 57)"

text \<open>\<open>s.startswith(p)\<close> and the substring test \<open>sub in s\<close>.\<close>

definition startswith :: "string \<Rightarrow> string \<Rightarrow> bool" where
  "startswith p s = (take (length p) s = p)"

fun contains :: "string \<Rightarrow> string \<Rightarrow> bool" where
  "contains sub [] = (sub = [])"
| "contains sub (c # cs) = (startswith sub (c # cs) \<or> contains sub cs)"

text \<open>\<open>s.strip()\<close> and \<open>s.strip(ch)\<close> for a single character \<open>ch\<close>.\<close>

definition strip :: "string \<Rightarrow> string" where
  "strip s = rev (dropWhile isspace (rev (dropWhile isspace s)))"

definition strip_char :: "char \<Rightarrow> string \<Rightarrow> string" where
  "strip_char ch s = rev (dropWhile (\<lambda>c. c = ch) (rev (dropWhile (\<lambda>c. c = ch) s)))"

text \<open>\<open>s.split(sep)\<close> for a single character \<open>sep\<close>: empty fields are kept.\<close>

fun split_on :: "char \<Rightarrow> string \<Rightarrow> string list" where
  "split_on sep [] = [[]]"
| "split_on sep (c # cs) =
     (if c = sep then [] # split_on sep cs
      else (case split_on sep cs of [] \<Rightarrow> [[c]] | x # xs \<Rightarrow> (c # x) # xs))"

text \<open>\<open>s.split()\<close>: the maximal runs of non-whitespace characters.\<close>

fun split_ws_aux :: "string \<Rightarrow> string \<Rightarrow> string list" where
  "split_ws_aux cur [] = (if cur = [] then [] else [cur])"
| "split_ws_aux cur (c # cs) =
     (if isspace c then (if cur = [] then split_ws_aux [] cs else cur # split_ws_aux [] cs)
      else split_ws_aux (cur @ [c]) cs)"

definition split_ws :: "string \<Rightarrow> string list" where
  "split_ws s = split_ws_aux [] s"

text \<open>\<open>sep.join(xs)\<close>.\<close>

fun join :: "string \<Rightarrow> string list \<Rightarrow> string" where
  "join sep [] = []"
| "join sep [x] = x"
| "join sep (x # y # ys) = x @ sep @ join sep (y # ys)"

text \<open>
  \<open>int(s)\<close> on a string: surrounding whitespace is ignored, one sign is allowed, and the
  digits may be grouped by single underscores. Anything else raises \<open>ValueError\<close>,
  which is \<open>None\<close> here.
\<close>

fun digits_value :: "nat \<Rightarrow> bool \<Rightarrow> string \<Rightarrow> nat option" where
  "digits_value acc after_digit [] = (if after_digit then Some acc else None)"
| "digits_value acc after_digit (c # cs) =
     (if isdigit c then digits_value (10 * acc + (of_char c - 48)) True cs
      else if c = CHR ''_'' \<and> after_digit \<and> cs \<noteq> [] \<and> isdigit (hd cs)
           then digits_value acc False cs
      else None)"

definition py_int :: "string \<Rightarrow> int option" where
  "py_int s =
     (case strip s of
        [] \<Rightarrow> None
      | c # cs \<Rightarrow>
          if c = CHR ''-'' then map_option (\<lambda>n. - int n) (digits_value 0 False cs)
          else if c = CHR ''+'' then map_option int (digits_value 0 False cs)
          else map_option int (digits_value 0 False (c # cs)))"

text \<open>\<open>str(n)\<close> for an integer.\<close>

fun str_nat :: "nat \<Rightarrow> string" where
  "str_nat n =
     (if n < 10 then [char_of (48 + n)] else str_nat (n div 10) @ [char_of (48 + n mod 10)])"

definition str_int :: "int \<Rightarrow> string" where
  "str_int i = (if i < 0 then CHR ''-'' # str_nat (nat (- i)) else str_nat (nat i))"

text \<open>The exceptions and exits of the scripts, as values.\<close>

datatype error =
    IndexError
  | ValueError
  | LengthMismatch nat int
  | AttributeError
  | UsageExit

text \<open>
  A Python \<open>dict\<close> from strings: an association list with distinct keys, in insertion
  order. \<open>d[k] = v\<close> is \<open>AList.update k v d\<close>: an existing key keeps its place.
\<close>

type_synonym 'v dict = "(string \<times> 'v) list"

section \<open>A3M to JSON: \<open>get_data_from_a3m\<close>, \<open>split_msa_vertically\<close>\<close>

text \<open>\<open>xs[i]\<close> for a non-negative index, raising \<open>IndexError\<close> out of range.\<close>

definition item :: "'a list \<Rightarrow> nat \<Rightarrow> error + 'a" where
  "item xs i = (if i < length xs then Inr (xs ! i) else Inl IndexError)"

text \<open>\<open>list(map(int, xs))\<close>.\<close>

fun map_int :: "string list \<Rightarrow> error + int list" where
  "map_int [] = Inr []"
| "map_int (x # xs) =
     (case py_int x of
        None \<Rightarrow> Inl ValueError
      | Some n \<Rightarrow> (case map_int xs of Inl e \<Rightarrow> Inl e | Inr ns \<Rightarrow> Inr (n # ns)))"

text \<open>
  \<open>get_data_from_a3m\<close> of \<open>convert_between_a3m_json.py\<close>: the result is
  \<open>(chains, dummy_chain_names, sequences, header[0], stoch)\<close>.
\<close>

definition get_data_from_a3m ::
  "string list \<Rightarrow> error + (int list \<times> string list \<times> string list \<times> string \<times> string list)" where
  "get_data_from_a3m a3m_lines =
     (case item a3m_lines 0 of Inl e \<Rightarrow> Inl e | Inr line0 \<Rightarrow>
     (let header = split_on TAB (strip_char CHR ''#'' (strip line0)) in
     (case item header 0 of Inl e \<Rightarrow> Inl e | Inr header0 \<Rightarrow>
     (case map_int (split_on CHR '','' header0) of Inl e \<Rightarrow> Inl e | Inr chain_lens \<Rightarrow>
     (case item header 1 of Inl e \<Rightarrow> Inl e | Inr header1 \<Rightarrow>
     (let stoch = split_on CHR '','' header1 in
     (case item a3m_lines 1 of Inl e \<Rightarrow> Inl e | Inr line1 \<Rightarrow>
     (let dummy_chain_names = split_on TAB (strip_char CHR ''>'' (strip line1));
          total_length = sum_list chain_lens in
     (case item a3m_lines 2 of Inl e \<Rightarrow> Inl e | Inr line2 \<Rightarrow>
     (let full_seq = strip line2 in
      if int (length full_seq) \<noteq> total_length
      then Inl (LengthMismatch (length full_seq) total_length)
      else Inr (chain_lens, dummy_chain_names, split_sequence_by_chains full_seq chain_lens,
                header0, stoch)))))))))))"

text \<open>
  \<open>get_data_from_a3m\<close> of \<open>run_mmseqs2.py\<close>: the same without the copy counts; the
  result is \<open>(chains, dummy_chain_names, sequences)\<close>.
\<close>

definition get_data_from_a3m_mmseqs ::
  "string list \<Rightarrow> error + (int list \<times> string list \<times> string list)" where
  "get_data_from_a3m_mmseqs a3m_lines =
     (case item a3m_lines 0 of Inl e \<Rightarrow> Inl e | Inr line0 \<Rightarrow>
     (let header = split_on TAB (strip_char CHR ''#'' (strip line0)) in
     (case item header 0 of Inl e \<Rightarrow> Inl e | Inr header0 \<Rightarrow>
     (case map_int (split_on CHR '','' header0) of Inl e \<Rightarrow> Inl e | Inr chain_lens \<Rightarrow>
     (case item a3m_lines 1 of Inl e \<Rightarrow> Inl e | Inr line1 \<Rightarrow>
     (let dummy_chain_names = split_on TAB (strip_char CHR ''>'' (strip line1));
          total_length = sum_list chain_lens in
     (case item a3m_lines 2 of Inl e \<Rightarrow> Inl e | Inr line2 \<Rightarrow>
     (let full_seq = strip line2 in
      if int (length full_seq) \<noteq> total_length
      then Inl (LengthMismatch (length full_seq) total_length)
      else Inr (chain_lens, dummy_chain_names, split_sequence_by_chains full_seq chain_lens)))))))))"

text \<open>\<open>dict_a3m_per_chain[chain].append(x)\<close>, for a key that is present.\<close>

definition dict_append :: "string \<Rightarrow> string \<Rightarrow> string list dict \<Rightarrow> string list dict" where
  "dict_append chain x d = map (\<lambda>(k, v). if k = chain then (k, v @ [x]) else (k, v)) d"

text \<open>The loop \<open>for i, chain in enumerate(dummy_chain_names)\<close> over one sequence row.\<close>

fun add_segments ::
  "nat \<Rightarrow> string list \<Rightarrow> string list \<Rightarrow> string list dict \<Rightarrow> error + string list dict" where
  "add_segments i [] split_sequences d = Inr d"
| "add_segments i (chain # names) split_sequences d =
     (case item split_sequences i of
        Inl e \<Rightarrow> Inl e
      | Inr seg \<Rightarrow> add_segments (i + 1) names split_sequences (dict_append chain seg d))"

text \<open>The loop \<open>for line in a3m_lines\<close> of \<open>split_msa_vertically\<close>.\<close>

fun vertical_loop ::
  "int list \<Rightarrow> string list \<Rightarrow> string list \<Rightarrow> string list dict \<Rightarrow> error + string list dict" where
  "vertical_loop chain_lens names [] d = Inr d"
| "vertical_loop chain_lens names (line # a3m_lines) d =
     (if startswith ''>'' line
      then vertical_loop chain_lens names a3m_lines (fold (\<lambda>chain. dict_append chain line) names d)
      else (case add_segments 0 names (split_sequence_by_chains (strip line) chain_lens) d of
              Inl e \<Rightarrow> Inl e
            | Inr d' \<Rightarrow> vertical_loop chain_lens names a3m_lines d'))"

definition split_msa_vertically ::
  "int list \<Rightarrow> string list \<Rightarrow> string list \<Rightarrow> error + string list dict" where
  "split_msa_vertically chain_lens dummy_chain_names a3m_lines =
     vertical_loop chain_lens dummy_chain_names a3m_lines
       (fold (\<lambda>chain. AList.update chain []) dummy_chain_names [])"

text \<open>
  The part of \<open>process_a3m_file\<close> before the JSON is written: the lines of the file are
  stripped, the empty ones dropped, and the data and the per-chain alignments computed.
  An \<open>Inl\<close> result is an exception raised before any output file is opened.
\<close>

definition clean_lines :: "string list \<Rightarrow> string list" where
  "clean_lines lines = map strip (filter (\<lambda>line. strip line \<noteq> []) lines)"

definition process_a3m_file ::
  "string list \<Rightarrow> error + (string list \<times> string list \<times> string list dict)" where
  "process_a3m_file file_lines =
     (let lines = clean_lines file_lines in
      case get_data_from_a3m lines of
        Inl e \<Rightarrow> Inl e
      | Inr (chain_lens, dummy_chain_names, sequences, header_name, stoch) \<Rightarrow>
          (case split_msa_vertically chain_lens dummy_chain_names (tl lines) of
             Inl e \<Rightarrow> Inl e
           | Inr dict_a3m_per_chain \<Rightarrow> Inr (sequences, stoch, dict_a3m_per_chain)))"

section \<open>JSON to A3M: \<open>process_chain\<close>, \<open>build_paired_msa\<close>, \<open>build_unpaired_msa\<close>\<close>

text \<open>
  The fields of \<open>json_chain['protein']\<close> that the converter reads. \<open>copies\<close> may be
  absent; \<open>unpairedMsa\<close> is \<open>None\<close> when \<open>create_local_job\<close> stored a list instead of
  a string.
\<close>

record protein =
  prot_id :: "string list"
  prot_copies :: "int option"
  prot_sequence :: string
  prot_unpairedMsa :: "string option"

text \<open>
  The test of \<open>process_chain\<close> that decides the dictionary of a header:
  \<open>('E+' in header or 'E-' in header) or '\t' not in header\<close>.
\<close>

definition unpaired_header :: "string \<Rightarrow> bool" where
  "unpaired_header header =
     ((contains ''E+'' header \<or> contains ''E-'' header) \<or> \<not> contains [TAB] header)"

text \<open>
  The loop \<open>for i in range(0, len(unpaired_msa), 2)\<close> with its guard
  \<open>i + 1 < len(unpaired_msa)\<close>: the lines are read two at a time, and a last line
  without a partner is not read. The state is \<open>(unpaired_dict, paired_dict)\<close>.
\<close>

fun pair_loop :: "string list \<Rightarrow> string dict \<times> string dict \<Rightarrow> string dict \<times> string dict" where
  "pair_loop (header # seq # unpaired_msa) (unpaired_dict, paired_dict) =
     pair_loop unpaired_msa
       (if unpaired_header header
        then (AList.update header seq unpaired_dict, paired_dict)
        else (unpaired_dict, AList.update header seq paired_dict))"
| "pair_loop [header] dicts = dicts"
| "pair_loop [] dicts = dicts"

text \<open>
  The (header, sequence) pairs of a list of lines, at the positions \<open>(2i, 2i + 1)\<close>:
  the reading of the lines that the claims about \<open>process_chain\<close> are stated with.
\<close>

fun pairs_of_lines :: "string list \<Rightarrow> (string \<times> string) list" where
  "pairs_of_lines (header # seq # rest) = (header, seq) # pairs_of_lines rest"
| "pairs_of_lines [header] = []"
| "pairs_of_lines [] = []"

text \<open>
  \<open>process_chain\<close>. The file system is the parameter \<open>files\<close>: \<open>files path\<close> is the
  list of lines \<open>readlines()\<close> returns when \<open>path\<close> is an existing file. The result is
  \<open>(num_copies, sequence, seqlen, unpaired_dict, paired_dict)\<close>.
\<close>

definition process_chain ::
  "(string \<Rightarrow> string list option) \<Rightarrow> protein
     \<Rightarrow> error + (int \<times> string \<times> nat \<times> string dict \<times> string dict)" where
  "process_chain files json_chain =
     (let num_copies = (case prot_copies json_chain of
                          Some n \<Rightarrow> n
                        | None \<Rightarrow> int (length (prot_id json_chain)));
          sequence = prot_sequence json_chain;
          seqlen = length sequence in
      case prot_unpairedMsa json_chain of
        None \<Rightarrow> Inl AttributeError
      | Some text \<Rightarrow>
          let unpaired_msa = split_on NL text;
              unpaired_msa =
                (if length unpaired_msa = 1
                 then (case files text of
                         Some file_lines \<Rightarrow> clean_lines (tl file_lines)
                       | None \<Rightarrow> unpaired_msa)
                 else unpaired_msa);
              (unpaired_dict, paired_dict) = pair_loop unpaired_msa ([], [])
          in Inr (num_copies, sequence, seqlen, unpaired_dict, paired_dict))"

text \<open>\<open>sorted(list(set(key for d in paired_list for key in d.keys())))\<close>.\<close>

definition all_keys :: "string dict list \<Rightarrow> string list" where
  "all_keys paired_list = sort (remdups (concat (map (map fst) paired_list)))"

text \<open>
  The inner loop \<open>for j, d in enumerate(paired_list)\<close> of \<open>build_paired_msa\<close>;
  \<open>seqlens[j]\<close> raises \<open>IndexError\<close> when \<open>seqlens\<close> is too short. The lengths are
  the values \<open>len(sequence)\<close> of \<open>process_chain\<close>, natural numbers.
\<close>

fun chain_seqs ::
  "string \<Rightarrow> nat \<Rightarrow> string dict list \<Rightarrow> nat list \<Rightarrow> string list \<Rightarrow> error + string list" where
  "chain_seqs key j [] seqlens seqs = Inr seqs"
| "chain_seqs key j (d # paired_list) seqlens seqs =
     (case map_of d key of
        Some s \<Rightarrow> chain_seqs key (j + 1) paired_list seqlens (seqs @ [s])
      | None \<Rightarrow>
          (case item seqlens j of
             Inl e \<Rightarrow> Inl e
           | Inr l \<Rightarrow> chain_seqs key (j + 1) paired_list seqlens
                        (seqs @ [replicate l CHR ''-''])))"

text \<open>The outer loop \<open>for i, key in enumerate(all_keys)\<close>.\<close>

fun paired_loop ::
  "string list \<Rightarrow> string dict list \<Rightarrow> nat list \<Rightarrow> string list \<Rightarrow> error + string list" where
  "paired_loop [] paired_list seqlens paired_msa = Inr paired_msa"
| "paired_loop (key # keys) paired_list seqlens paired_msa =
     (case chain_seqs key 0 paired_list seqlens [] of
        Inl e \<Rightarrow> Inl e
      | Inr seqs \<Rightarrow> paired_loop keys paired_list seqlens (paired_msa @ [key, concat seqs]))"

definition build_paired_msa :: "string dict list \<Rightarrow> nat list \<Rightarrow> error + string list" where
  "build_paired_msa paired_list seqlens =
     paired_loop (all_keys paired_list) paired_list seqlens []"

text \<open>The inner loop \<open>for header in msa.keys()\<close> of \<open>build_unpaired_msa\<close>.\<close>

fun unpaired_rows :: "string dict \<Rightarrow> nat \<Rightarrow> nat \<Rightarrow> string list \<Rightarrow> string list" where
  "unpaired_rows [] chain_len_before chain_len_after unpaired_padded_msa = unpaired_padded_msa"
| "unpaired_rows ((header, seq) # msa) chain_len_before chain_len_after unpaired_padded_msa =
     unpaired_rows msa chain_len_before chain_len_after
       (unpaired_padded_msa
          @ [header, replicate chain_len_before CHR ''-'' @ seq @ replicate chain_len_after CHR ''-''])"

text \<open>The outer loop \<open>for i, chain_msa in enumerate(unpaired_list)\<close>.\<close>

fun unpaired_loop :: "nat \<Rightarrow> string dict list \<Rightarrow> nat list \<Rightarrow> string list \<Rightarrow> string list" where
  "unpaired_loop i [] seqlens unpaired_padded_msa = unpaired_padded_msa"
| "unpaired_loop i (chain_msa # unpaired_list) seqlens unpaired_padded_msa =
     unpaired_loop (i + 1) unpaired_list seqlens
       (unpaired_rows chain_msa (sum_list (take i seqlens)) (sum_list (drop (i + 1) seqlens))
          unpaired_padded_msa)"

definition build_unpaired_msa :: "nat list \<Rightarrow> string dict list \<Rightarrow> string list" where
  "build_unpaired_msa seqlens unpaired_list = unpaired_loop 0 unpaired_list seqlens []"

definition build_header :: "nat list \<Rightarrow> int list \<Rightarrow> string" where
  "build_header seqlens nums_copies =
     ''#'' @ join '','' (map str_nat seqlens) @ [TAB] @ join '','' (map str_int nums_copies)"

text \<open>\<open>[process_chain(chain) for chain in json_data['sequences']]\<close>.\<close>

fun process_chains ::
  "(string \<Rightarrow> string list option) \<Rightarrow> protein list
     \<Rightarrow> error + (int \<times> string \<times> nat \<times> string dict \<times> string dict) list" where
  "process_chains files [] = Inr []"
| "process_chains files (chain # sequences) =
     (case process_chain files chain of
        Inl e \<Rightarrow> Inl e
      | Inr r \<Rightarrow> (case process_chains files sequences of
                    Inl e \<Rightarrow> Inl e
                  | Inr rs \<Rightarrow> Inr (r # rs)))"

text \<open>
  \<open>process_json_file\<close> up to the list \<open>full_msa\<close> that is written to the output file,
  joined by newlines. Unpacking \<open>zip(*[])\<close> into five names raises \<open>ValueError\<close>.
\<close>

definition process_json_file ::
  "(string \<Rightarrow> string list option) \<Rightarrow> protein list \<Rightarrow> error + string list" where
  "process_json_file files sequences =
     (case process_chains files sequences of
        Inl e \<Rightarrow> Inl e
      | Inr [] \<Rightarrow> Inl ValueError
      | Inr rs \<Rightarrow>
          let nums_copies = map fst rs;
              seqlens = map (\<lambda>(n, s, l, u, p). l) rs;
              unpaired_list = map (\<lambda>(n, s, l, u, p). u) rs;
              paired_list = map (\<lambda>(n, s, l, u, p). p) rs;
              header = build_header seqlens nums_copies
          in (case build_paired_msa paired_list seqlens of
                Inl e \<Rightarrow> Inl e
              | Inr paired_msa \<Rightarrow>
                  Inr ([header] @ paired_msa @ build_unpaired_msa seqlens unpaired_list)))"

text \<open>
  The \<open>sequences\<close> list of \<open>create_local_job\<close>: chain \<open>i\<close> gets the identifier
  \<open>chr(65 + i)\<close>, its query segment, \<open>''.join(msas[i])\<close> and \<open>int(stoch[i])\<close>.
  \<open>stoch\<close> comes from a \<open>split\<close> and is never empty.
\<close>

fun local_job_chains ::
  "nat \<Rightarrow> string list \<Rightarrow> string list list \<Rightarrow> string list \<Rightarrow> error + protein list" where
  "local_job_chains i [] msas stoch = Inr []"
| "local_job_chains i (seq # sequences) msas stoch =
     (case (if i < length stoch then py_int (stoch ! i) else Some 1) of
        None \<Rightarrow> Inl ValueError
      | Some copies \<Rightarrow>
          (case local_job_chains (i + 1) sequences msas stoch of
             Inl e \<Rightarrow> Inl e
           | Inr rest \<Rightarrow>
               Inr (\<lparr>prot_id = [[char_of (65 + i)]], prot_copies = Some copies,
                      prot_sequence = seq,
                      prot_unpairedMsa = (if i < length msas then Some (concat (msas ! i)) else None)\<rparr>
                    # rest)))"

definition create_local_job :: "string list \<Rightarrow> string list list \<Rightarrow> string list \<Rightarrow> error + protein list" where
  "create_local_job sequences msas stoch = local_job_chains 0 sequences msas stoch"

text \<open>
  The JSON that \<open>process_a3m_file\<close> writes for a local job with inline alignments
  (\<open>server\<close> and \<open>add_path\<close> both false): \<open>create_json_structure\<close> passes the
  sequences, \<open>list(dict_a3m_per_chain.values())\<close> and the copy counts to
  \<open>create_local_job\<close>.
\<close>

definition a3m_to_json :: "string list \<Rightarrow> error + protein list" where
  "a3m_to_json file_lines =
     (case process_a3m_file file_lines of
        Inl e \<Rightarrow> Inl e
      | Inr (sequences, stoch, dict_a3m_per_chain) \<Rightarrow>
          create_local_job sequences (map snd dict_a3m_per_chain) stoch)"

section \<open>Chain-Column Removal Transform: \<open>main\<close> of \<open>remove_msa_from_chain_af2.py\<close>\<close>

text \<open>
  The variables of the loop over the lines of the input file. \<open>lengths\<close> holds the
  comma-separated fields of the header line as strings (\<open>int(l)\<close> is applied where a
  length is used); before a header line is read it is the one-element list \<open>[1]\<close>.
\<close>

record state =
  st_lengths :: "string list"
  st_skip :: bool
  st_edit_msa :: bool
  st_new_lines :: string

definition init_state :: state where
  "init_state = \<lparr>st_lengths = [''1''], st_skip = False, st_edit_msa = False, st_new_lines = []\<rparr>"

text \<open>
  The loop \<open>for c in line\<close> of the row rewrite: every character read is appended to
  \<open>line_to_add\<close>, uppercase letters and \<open>-\<close> are counted, and the loop breaks when the
  count equals \<open>int(l)\<close>. The result is \<open>(line_to_add, capital_dash)\<close>.
\<close>

fun copy_cols :: "string \<Rightarrow> string \<Rightarrow> string \<Rightarrow> nat \<Rightarrow> error + (string \<times> nat)" where
  "copy_cols l [] line_to_add capital_dash = Inr (line_to_add, capital_dash)"
| "copy_cols l (c # cs) line_to_add capital_dash =
     (let capital_dash' = (if isupper c \<or> c = CHR ''-'' then capital_dash + 1 else capital_dash)
      in case py_int l of
           None \<Rightarrow> Inl ValueError
         | Some n \<Rightarrow>
             if int capital_dash' = n then Inr (line_to_add @ [c], capital_dash')
             else copy_cols l cs (line_to_add @ [c]) capital_dash')"

text \<open>
  The loop \<open>for i, l in enumerate(lengths)\<close>: a chain other than the target copies its
  columns and then \<open>line = line[capital_dash:]\<close>; the target chain adds
  \<open>'-' * int(l)\<close> and leaves \<open>line\<close> as it is.
\<close>

fun edit_loop :: "int \<Rightarrow> nat \<Rightarrow> string list \<Rightarrow> string \<Rightarrow> string \<Rightarrow> error + string" where
  "edit_loop peptide i [] line line_to_add = Inr line_to_add"
| "edit_loop peptide i (l # lengths) line line_to_add =
     (if int i \<noteq> peptide - 1
      then (case copy_cols l line line_to_add 0 of
              Inl e \<Rightarrow> Inl e
            | Inr (line_to_add', capital_dash) \<Rightarrow>
                edit_loop peptide (i + 1) lengths (drop capital_dash line) line_to_add')
      else (case py_int l of
              None \<Rightarrow> Inl ValueError
            | Some n \<Rightarrow>
                edit_loop peptide (i + 1) lengths line
                  (line_to_add @ replicate (nat n) CHR ''-'')))"

definition edit_row :: "int \<Rightarrow> string list \<Rightarrow> string \<Rightarrow> error + string" where
  "edit_row peptide lengths line =
     (case edit_loop peptide 0 lengths line [] of
        Inl e \<Rightarrow> Inl e
      | Inr line_to_add \<Rightarrow> Inr (line_to_add @ [NL]))"

text \<open>\<open>new_lines += x\<close>.\<close>

definition emit :: "string \<Rightarrow> state \<Rightarrow> state" where
  "emit x s = s\<lparr>st_new_lines := st_new_lines s @ x\<rparr>"

text \<open>
  The loop \<open>for line in lines_iter\<close>, one equation per line read. The branches are the
  \<open>if\<close>/\<open>elif\<close> chain in its order; the two branches that call \<open>next(lines_iter)\<close>
  take the following line as well, when there is one. \<open>sys.exit(1)\<close> is \<open>UsageExit\<close>;
  a header line that does not split into two fields raises \<open>ValueError\<close>.
\<close>

fun run :: "int \<Rightarrow> state \<Rightarrow> string list \<Rightarrow> error + state" where
  "run peptide s [] = Inr s"
| "run peptide s (line # rest) =
     (if startswith ''#'' line then
        (case split_ws (tl line) of
           [lengths, stoich] \<Rightarrow>
             let lengths = split_on CHR '','' lengths in
             if peptide > int (length lengths) \<or> peptide = 0 then Inl UsageExit
             else run peptide (emit line (s\<lparr>st_lengths := lengths\<rparr>)) rest
         | _ \<Rightarrow> Inl ValueError)
      else if contains (''>101'' @ [TAB] @ ''102'') line then
        (let s' = emit line (if length (st_lengths s) > 2 then s\<lparr>st_edit_msa := True\<rparr>
                             else s\<lparr>st_skip := True\<rparr>)
         in case rest of
              [] \<Rightarrow> Inr s'
            | next_line # rest' \<Rightarrow> run peptide (emit next_line s') rest')
      else if startswith (''>10'' @ str_int peptide) line then
        (let s' = emit line (s\<lparr>st_skip := True\<rparr>)
         in case rest of
              [] \<Rightarrow> Inr s'
            | next_line # rest' \<Rightarrow> run peptide (emit next_line s') rest')
      else if startswith ''>'' line \<and> \<not> contains [TAB] line then
        run peptide (emit line (s\<lparr>st_skip := False, st_edit_msa := False\<rparr>)) rest
      else if st_edit_msa s \<and> \<not> startswith ''>'' line then
        (case edit_row peptide (st_lengths s) line of
           Inl e \<Rightarrow> Inl e
         | Inr row \<Rightarrow> run peptide (emit row s) rest)
      else if \<not> st_skip s then run peptide (emit line s) rest
      else run peptide s rest)"

text \<open>
  \<open>main\<close>: \<open>peptide\<close> is the value of \<open>--chain\<close>, \<open>file_lines\<close> the lines of the input
  file as the file iterator yields them, each with its line end. The result is the text
  written to the output file; with an \<open>Inl\<close> result no output file is opened.
\<close>

definition main :: "int \<Rightarrow> string list \<Rightarrow> error + string" where
  "main peptide file_lines =
     (case run peptide init_state file_lines of
        Inl e \<Rightarrow> Inl e
      | Inr s \<Rightarrow> Inr (st_new_lines s))"

text \<open>
  A row that none of the first four branches of the loop recognises: not a header line,
  not the paired-block marker, not the target chain's own header and not a header
  without a tab. Sequence rows and the headers of hits (which carry tabs) are such rows.
\<close>

definition plain_row :: "int \<Rightarrow> string \<Rightarrow> bool" where
  "plain_row peptide line =
     (\<not> startswith ''#'' line
      \<and> \<not> contains (''>101'' @ [TAB] @ ''102'') line
      \<and> \<not> startswith (''>10'' @ str_int peptide) line
      \<and> \<not> (startswith ''>'' line \<and> \<not> contains [TAB] line))"

text \<open>
  A row that the loop writes unchanged while neither flag is set: not a header line,
  not the paired-block marker and not the target chain's own header. A header without
  a tab is such a row as well: it clears the two flags, which are clear already.
\<close>

definition kept_row :: "int \<Rightarrow> string \<Rightarrow> bool" where
  "kept_row peptide line =
     (\<not> startswith ''#'' line
      \<and> \<not> contains (''>101'' @ [TAB] @ ''102'') line
      \<and> \<not> startswith (''>10'' @ str_int peptide) line)"

section \<open>Properties of the Column Splitter\<close>

lemma take_chain_acc:
  "take_chain t a acc s = (acc @ fst (take_chain t a [] s), snd (take_chain t a [] s))"
proof (induction s arbitrary: a acc)
  case Nil
  show ?case by simp
next
  case (Cons c cs)
  show ?case
  proof (cases "a < t")
    case True
    let ?a = "if \<not> islower c then a + 1 else a"
    have "take_chain t a acc (c # cs) = take_chain t ?a (acc @ [c]) cs"
      using True by simp
    also have "\<dots> = ((acc @ [c]) @ fst (take_chain t ?a [] cs), snd (take_chain t ?a [] cs))"
      by (rule Cons.IH)
    also have "\<dots> = (acc @ fst (take_chain t ?a [c] cs), snd (take_chain t ?a [c] cs))"
      using Cons.IH [of ?a "[c]"] by simp
    finally show ?thesis using True by simp
  next
    case False
    then show ?thesis by simp
  qed
qed

lemma take_chain_append:
  "fst (take_chain t a [] s) @ snd (take_chain t a [] s) = s"
proof (induction s arbitrary: a)
  case Nil
  show ?case by simp
next
  case (Cons c cs)
  show ?case
  proof (cases "a < t")
    case True
    let ?a = "if \<not> islower c then a + 1 else a"
    have "take_chain t a [] (c # cs) = take_chain t ?a [c] cs"
      using True by simp
    then show ?thesis
      using take_chain_acc [of t ?a "[c]" cs] Cons.IH [of ?a] by simp
  next
    case False
    then show ?thesis by simp
  qed
qed

lemma take_chain_visible_le:
  "a \<le> t \<Longrightarrow> a + int (visible (fst (take_chain t a [] s))) \<le> t"
proof (induction s arbitrary: a)
  case Nil
  then show ?case by (simp add: visible_def)
next
  case (Cons c cs)
  show ?case
  proof (cases "a < t")
    case True
    let ?a = "if \<not> islower c then a + 1 else a"
    have le: "?a \<le> t" using True by simp
    have eq: "fst (take_chain t a [] (c # cs)) = c # fst (take_chain t ?a [] cs)"
      using True take_chain_acc [of t ?a "[c]" cs] by simp
    show ?thesis
      using Cons.IH [OF le] unfolding eq by (simp add: visible_def split: if_splits)
  next
    case False
    then show ?thesis using Cons.prems by (simp add: visible_def)
  qed
qed

lemma take_chain_visible_ge:
  "snd (take_chain t a [] s) \<noteq> [] \<Longrightarrow> t \<le> a + int (visible (fst (take_chain t a [] s)))"
proof (induction s arbitrary: a)
  case Nil
  then show ?case by simp
next
  case (Cons c cs)
  show ?case
  proof (cases "a < t")
    case True
    let ?a = "if \<not> islower c then a + 1 else a"
    have eq: "take_chain t a [] (c # cs)
        = (c # fst (take_chain t ?a [] cs), snd (take_chain t ?a [] cs))"
      using True take_chain_acc [of t ?a "[c]" cs] by simp
    have "snd (take_chain t ?a [] cs) \<noteq> []"
      using Cons.prems unfolding eq by simp
    from Cons.IH [OF this] show ?thesis
      unfolding eq by (simp add: visible_def split: if_splits)
  next
    case False
    then show ?thesis by (simp add: visible_def)
  qed
qed

lemma take_chain_last_visible:
  "a < t \<Longrightarrow> a + int (visible (fst (take_chain t a [] s))) = t \<Longrightarrow>
     fst (take_chain t a [] s) \<noteq> [] \<and> \<not> islower (last (fst (take_chain t a [] s)))"
proof (induction s arbitrary: a)
  case Nil
  then show ?case by (simp add: visible_def)
next
  case (Cons c cs)
  let ?a = "if \<not> islower c then a + 1 else a"
  have eq: "fst (take_chain t a [] (c # cs)) = c # fst (take_chain t ?a [] cs)"
    using Cons.prems(1) take_chain_acc [of t ?a "[c]" cs] by simp
  have sum: "?a + int (visible (fst (take_chain t ?a [] cs))) = t"
    using Cons.prems(2) unfolding eq by (simp add: visible_def split: if_splits)
  show ?case
  proof (cases "?a < t")
    case True
    from Cons.IH [OF True sum] show ?thesis unfolding eq by simp
  next
    case False
    then have at: "?a = t" using Cons.prems(1) by (simp split: if_splits)
    then have vis: "\<not> islower c" using Cons.prems(1) by (simp split: if_splits)
    have "fst (take_chain t ?a [] cs) = []"
      using False by (cases cs) simp_all
    then show ?thesis unfolding eq using vis by simp
  qed
qed

lemma split_loop_acc:
  "split_loop s L acc = acc @ split_loop s L []"
proof (induction L arbitrary: s acc)
  case Nil
  show ?case by simp
next
  case (Cons t ts)
  obtain p r where pr: "take_chain t 0 [] s = (p, r)" by (cases "take_chain t 0 [] s")
  show ?case
    using Cons.IH [of r "acc @ [p]"] Cons.IH [of r "[p]"] by (simp add: pr)
qed

lemma split_Cons:
  "split_sequence_by_chains s (t # ts)
     = fst (take_chain t 0 [] s) # split_sequence_by_chains (snd (take_chain t 0 [] s)) ts"
  unfolding split_sequence_by_chains_def
  using split_loop_acc [of "snd (take_chain t 0 [] s)" ts "[fst (take_chain t 0 [] s)]"]
  by (simp add: split_beta)

lemma split_Nil: "split_sequence_by_chains s [] = []"
  by (simp add: split_sequence_by_chains_def)

lemma split_length: "length (split_sequence_by_chains s L) = length L"
  by (induction L arbitrary: s) (simp_all add: split_Nil split_Cons)

lemma visible_append: "visible (p @ r) = visible p + visible r"
  by (simp add: visible_def)

lemma drop_trailing_lower_append:
  "p \<noteq> [] \<Longrightarrow> \<not> islower (last p) \<Longrightarrow> drop_trailing_lower (p @ r) = p @ drop_trailing_lower r"
proof -
  assume ne: "p \<noteq> []" and vis: "\<not> islower (last p)"
  have hd: "rev p = last p # rev (butlast p)"
    using ne by (metis append_butlast_last_id rev.simps(2) rev_rev_ident)
  have keep: "dropWhile islower (rev p) = rev p"
    using vis by (subst hd, simp) (simp add: hd)
  have "dropWhile islower (rev r @ rev p) = dropWhile islower (rev r) @ rev p"
    using keep ne by (simp add: dropWhile_append)
  then show ?thesis by (simp add: drop_trailing_lower_def)
qed

lemma drop_trailing_lower_all:
  "visible s = 0 \<Longrightarrow> drop_trailing_lower s = []"
  by (simp add: drop_trailing_lower_def visible_def filter_empty_conv)

lemma drop_trailing_lower_id:
  "s = [] \<or> \<not> islower (last s) \<Longrightarrow> drop_trailing_lower s = s"
proof (cases "s = []")
  case True
  then show ?thesis by (simp add: drop_trailing_lower_def)
next
  case False
  assume "s = [] \<or> \<not> islower (last s)"
  with False have "\<not> islower (last s)" by simp
  from drop_trailing_lower_append [OF False this, of "[]"]
  show ?thesis by (simp add: drop_trailing_lower_def)
qed

lemma take_chain_exact:
  assumes "0 \<le> t" and "t \<le> int (visible s)"
  shows "int (visible (fst (take_chain t 0 [] s))) = t"
proof (cases "snd (take_chain t 0 [] s) = []")
  case True
  then have "fst (take_chain t 0 [] s) = s"
    using take_chain_append [of t 0 s] by simp
  then show ?thesis
    using take_chain_visible_le [of 0 t s] assms by simp
next
  case False
  then show ?thesis
    using take_chain_visible_ge [of t 0 s] take_chain_visible_le [of 0 t s] assms by simp
qed

lemma split_concat_drop_trailing:
  "\<forall>l \<in> set L. 0 < l \<Longrightarrow> int (visible S) = sum_list L \<Longrightarrow>
     concat (split_sequence_by_chains S L) = drop_trailing_lower S"
proof (induction L arbitrary: S)
  case Nil
  then show ?case by (simp add: split_Nil drop_trailing_lower_all)
next
  case (Cons t ts)
  let ?p = "fst (take_chain t 0 [] S)" and ?r = "snd (take_chain t 0 [] S)"
  have pos: "0 < t" and rest_pos: "\<forall>l \<in> set ts. 0 < l" using Cons.prems(1) by simp_all
  have "0 \<le> sum_list ts" using rest_pos by (simp add: sum_list_nonneg less_imp_le)
  then have "t \<le> int (visible S)" using Cons.prems(2) by simp
  then have vp: "int (visible ?p) = t" using take_chain_exact [of t S] pos by simp
  have S: "?p @ ?r = S" by (rule take_chain_append)
  have "int (visible ?p) + int (visible ?r) = t + sum_list ts"
    using Cons.prems(2) visible_append [of ?p ?r] unfolding S by simp
  then have vr: "int (visible ?r) = sum_list ts" using vp by simp
  have lastp: "?p \<noteq> [] \<and> \<not> islower (last ?p)"
    using take_chain_last_visible [of 0 t S] pos vp by simp
  have "concat (split_sequence_by_chains S (t # ts)) = ?p @ drop_trailing_lower ?r"
    using Cons.IH [OF rest_pos vr] by (simp add: split_Cons)
  also have "\<dots> = drop_trailing_lower (?p @ ?r)"
    using lastp by (simp add: drop_trailing_lower_append)
  finally show ?case unfolding S .
qed

lemma split_concat_prefix:
  "\<exists>rest. concat (split_sequence_by_chains S L) @ rest = S"
proof (induction L arbitrary: S)
  case Nil
  show ?case by (simp add: split_Nil)
next
  case (Cons t ts)
  let ?p = "fst (take_chain t 0 [] S)" and ?r = "snd (take_chain t 0 [] S)"
  obtain rest where "concat (split_sequence_by_chains ?r ts) @ rest = ?r"
    using Cons.IH [of ?r] by blast
  then have "concat (split_sequence_by_chains S (t # ts)) @ rest = ?p @ ?r"
    by (simp add: split_Cons)
  then show ?case using take_chain_append [of t 0 S] by auto
qed

lemma split_short_last:
  "L \<noteq> [] \<Longrightarrow> \<forall>l \<in> set L. 0 < l \<Longrightarrow> int (visible S) < sum_list L \<Longrightarrow>
     int (visible (last (split_sequence_by_chains S L))) < last L"
proof (induction L arbitrary: S)
  case Nil
  then show ?case by simp
next
  case (Cons t ts)
  let ?p = "fst (take_chain t 0 [] S)" and ?r = "snd (take_chain t 0 [] S)"
  have pos: "0 < t" and rest_pos: "\<forall>l \<in> set ts. 0 < l" using Cons.prems(2) by simp_all
  have S: "?p @ ?r = S" by (rule take_chain_append)
  have ple: "int (visible ?p) \<le> t" using take_chain_visible_le [of 0 t S] pos by simp
  have vS: "visible S = visible ?p + visible ?r"
    using visible_append [of ?p ?r] unfolding S .
  show ?case
  proof (cases "ts = []")
    case True
    have "int (visible ?p) \<le> int (visible S)" using vS by simp
    then show ?thesis using True Cons.prems(3) by (simp add: split_Cons split_Nil)
  next
    case False
    have len: "split_sequence_by_chains ?r ts \<noteq> []"
      using False split_length [of ?r ts] by auto
    have "int (visible ?r) < sum_list ts"
    proof (cases "?r = []")
      case True
      obtain u us where "ts = u # us" using False by (cases ts) auto
      then have "0 < sum_list ts"
        using rest_pos by (simp add: add_pos_nonneg sum_list_nonneg less_imp_le)
      then show ?thesis using True by (simp add: visible_def)
    next
      case False
      then have "t \<le> int (visible ?p)" using take_chain_visible_ge [of t 0 S] by simp
      then show ?thesis using Cons.prems(3) vS by simp
    qed
    from Cons.IH [OF False rest_pos this] show ?thesis
      using False len by (simp add: split_Cons)
  qed
qed

section \<open>Claims about the Column Splitter\<close>

text \<open>
  Claim C3, as amended. For chain lengths \<open>L\<close> that are all positive and a sequence
  \<open>S\<close> whose number of visible (non-lowercase) characters is \<open>sum L\<close>, the
  concatenation of the segments returned by the Column Splitter is \<open>S\<close> without the
  lowercase insertion characters that follow its last visible column; it is \<open>S\<close>
  itself whenever \<open>S\<close> is empty or ends in a visible character.
\<close>

theorem C3_split_concat:
  assumes "\<forall>l \<in> set L. 0 < l" and "int (visible S) = sum_list L"
  shows "concat (split_sequence_by_chains S L) = drop_trailing_lower S
       \<and> (S = [] \<or> \<not> islower (last S) \<longrightarrow> concat (split_sequence_by_chains S L) = S)"
  using split_concat_drop_trailing [OF assms] drop_trailing_lower_id [of S] by auto

theorem C3_split_concat_witness:
  "(0::int) < 3 \<and> (0::int) < 2 \<and> int (visible ''ABCxyDEz'') = sum_list [3, 2]
     \<and> concat (split_sequence_by_chains ''ABCxyDEz'' [3, 2]) = ''ABCxyDE''
     \<and> split_sequence_by_chains ''ABCxyDE'' [3, 2] = [''ABC'', ''xyDE'']
     \<and> concat (split_sequence_by_chains ''ABCxyDE'' [3, 2]) = ''ABCxyDE''"
proof -
  have h1: "\<forall>l \<in> set [3, 2 :: int]. 0 < l" by simp
  have h2: "int (visible ''ABCxyDEz'') = sum_list [3, 2]"
    by (simp add: visible_def islower_def)
  have h3: "int (visible ''ABCxyDE'') = sum_list [3, 2]"
    by (simp add: visible_def islower_def)
  have d: "drop_trailing_lower ''ABCxyDEz'' = ''ABCxyDE''"
    by (simp add: drop_trailing_lower_def islower_def)
  have l: "\<not> islower (last ''ABCxyDE'')" by (simp add: islower_def)
  have s: "split_sequence_by_chains ''ABCxyDE'' [3, 2] = [''ABC'', ''xyDE'']"
    by (simp add: split_sequence_by_chains_def islower_def)
  show ?thesis
    using C3_split_concat [OF h1 h2] C3_split_concat [OF h1 h3] h1 h2 d l s by simp
qed

text \<open>
  Claim C3 as stated fails: the sequence \<open>Ax\<close> has one visible character, the chain
  lengths \<open>[1]\<close> sum to one, and the splitter returns the single segment \<open>A\<close>, whose
  concatenation is not the input.
\<close>

theorem C3_counterexample:
  "int (visible ''Ax'') = sum_list [1]
     \<and> split_sequence_by_chains ''Ax'' [1] = [''A'']
     \<and> concat (split_sequence_by_chains ''Ax'' [1]) \<noteq> ''Ax''"
  by (simp add: visible_def islower_def split_sequence_by_chains_def)

text \<open>
  Claim C9. The Column Splitter is a total function: for every sequence and every list
  of chain lengths it returns one segment per declared length, and the segments read
  off a prefix of the input. When the input runs out before the declared (positive)
  lengths are reached, the last segment is short: it has fewer visible characters than
  its declared length.
\<close>

theorem C9_split_total:
  "length (split_sequence_by_chains S L) = length L
   \<and> (\<exists>rest. concat (split_sequence_by_chains S L) @ rest = S)
   \<and> (L \<noteq> [] \<and> (\<forall>l \<in> set L. 0 < l) \<and> int (visible S) < sum_list L
        \<longrightarrow> int (visible (last (split_sequence_by_chains S L))) < last L)"
  using split_length [of S L] split_concat_prefix [of S L] split_short_last [of L S]
  by blast

theorem C9_split_total_witness:
  "[3, 2 :: int] \<noteq> [] \<and> (0::int) < 3 \<and> (0::int) < 2 \<and> int (visible ''ABCxD'') < sum_list [3, 2]
   \<and> split_sequence_by_chains ''ABCxD'' [3, 2] = [''ABC'', ''xD'']
   \<and> split_sequence_by_chains ''AB'' [3, 2] = [''AB'', '''']
   \<and> int (visible (last (split_sequence_by_chains ''ABCxD'' [3, 2]))) < last [3, 2]"
proof -
  have v: "int (visible ''ABCxD'') < sum_list [3, 2]"
    by (simp add: visible_def islower_def)
  have s1: "split_sequence_by_chains ''ABCxD'' [3, 2] = [''ABC'', ''xD'']"
    by (simp add: split_sequence_by_chains_def islower_def)
  have s2: "split_sequence_by_chains ''AB'' [3, 2] = [''AB'', '''']"
    by (simp add: split_sequence_by_chains_def islower_def)
  show ?thesis
    using C9_split_total [of "''ABCxD''" "[3, 2]"] v s1 s2 by simp
qed

section \<open>Properties of the string primitives and of the pairing loop\<close>

lemma startswith_iff: "startswith p s \<longleftrightarrow> (\<exists>post. s = p @ post)"
proof
  assume "startswith p s"
  then have "s = p @ drop (length p) s"
    unfolding startswith_def by (metis append_take_drop_id)
  then show "\<exists>post. s = p @ post" ..
next
  assume "\<exists>post. s = p @ post"
  then show "startswith p s" by (auto simp: startswith_def)
qed

lemma contains_iff: "contains sub s \<longleftrightarrow> (\<exists>pre post. s = pre @ sub @ post)"
proof (induction s)
  case Nil
  show ?case by auto
next
  case (Cons c cs)
  show ?case
  proof
    assume "contains sub (c # cs)"
    then consider "startswith sub (c # cs)" | "contains sub cs" by auto
    then show "\<exists>pre post. c # cs = pre @ sub @ post"
    proof cases
      case 1
      then obtain post where "c # cs = sub @ post" using startswith_iff by blast
      then have "c # cs = [] @ sub @ post" by simp
      then show ?thesis by blast
    next
      case 2
      then obtain pre post where "cs = pre @ sub @ post" using Cons.IH by blast
      then have "c # cs = (c # pre) @ sub @ post" by simp
      then show ?thesis by blast
    qed
  next
    assume "\<exists>pre post. c # cs = pre @ sub @ post"
    then obtain pre post where eq: "c # cs = pre @ sub @ post" by blast
    show "contains sub (c # cs)"
    proof (cases pre)
      case Nil
      then have "startswith sub (c # cs)" using eq startswith_iff by auto
      then show ?thesis by simp
    next
      case (Cons a pre')
      then have "cs = pre' @ sub @ post" using eq by simp
      then have "contains sub cs" using Cons.IH by blast
      then show ?thesis by simp
    qed
  qed
qed

lemma contains_char: "contains [c] s \<longleftrightarrow> c \<in> set s"
  by (induction s) (auto simp: startswith_def)

lemma pair_loop_pairs:
  "pair_loop xs (u, p) =
     fold (\<lambda>(h, s) (u, p). if unpaired_header h then (AList.update h s u, p)
                            else (u, AList.update h s p)) (pairs_of_lines xs) (u, p)"
  by (induction xs "(u, p)" arbitrary: u p rule: pair_loop.induct) simp_all

lemma map_of_unpaired:
  "map_of (fst (pair_loop xs (u, p))) =
     (\<lambda>h. if unpaired_header h then (map_of u ++ map_of (rev (pairs_of_lines xs))) h
          else map_of u h)"
proof (induction xs arbitrary: u p rule: pairs_of_lines.induct)
  case (1 header seq rest)
  show ?case
  proof (cases "unpaired_header header")
    case True
    then show ?thesis
      using 1 [of "AList.update header seq u" p]
      by (auto simp: fun_eq_iff update_conv' map_add_def split: option.splits)
  next
    case False
    then show ?thesis
      using 1 [of u "AList.update header seq p"]
      by (auto simp: fun_eq_iff map_add_def split: option.splits)
  qed
qed (simp_all add: fun_eq_iff)

lemma map_of_paired:
  "map_of (snd (pair_loop xs (u, p))) =
     (\<lambda>h. if \<not> unpaired_header h then (map_of p ++ map_of (rev (pairs_of_lines xs))) h
          else map_of p h)"
proof (induction xs arbitrary: u p rule: pairs_of_lines.induct)
  case (1 header seq rest)
  show ?case
  proof (cases "unpaired_header header")
    case True
    then show ?thesis
      using 1 [of "AList.update header seq u" p]
      by (auto simp: fun_eq_iff map_add_def split: option.splits)
  next
    case False
    then show ?thesis
      using 1 [of u "AList.update header seq p"]
      by (auto simp: fun_eq_iff update_conv' map_add_def split: option.splits)
  qed
qed (simp_all add: fun_eq_iff)

lemma pairs_of_lines_nth:
  "2 * i + 1 < length xs \<Longrightarrow> (xs ! (2 * i), xs ! (2 * i + 1)) \<in> set (pairs_of_lines xs)"
proof (induction xs arbitrary: i rule: pairs_of_lines.induct)
  case (1 header seq rest)
  show ?case
  proof (cases i)
    case 0
    then show ?thesis by simp
  next
    case (Suc j)
    then have "2 * j + 1 < length rest" using 1(2) by simp
    from 1(1) [OF this] show ?thesis using Suc by simp
  qed
qed simp_all

lemma pair_loop_odd:
  "even (length xs) \<Longrightarrow> pair_loop (xs @ [h]) d = pair_loop xs d"
proof (induction xs d rule: pair_loop.induct)
  case (1 header seq rest u p)
  then show ?case by simp
next
  case (2 header d)
  then show ?case by simp
next
  case (3 d)
  show ?case by simp
qed


lemma pairs_of_lines_index:
  "(h, v) \<in> set (pairs_of_lines xs) \<Longrightarrow>
     \<exists>k. 2 * k + 1 < length xs \<and> xs ! (2 * k) = h \<and> xs ! (2 * k + 1) = v"
proof (induction xs rule: pairs_of_lines.induct)
  case (1 header seq rest)
  show ?case
  proof (cases "(h, v) = (header, seq)")
    case True
    then have "2 * 0 + 1 < length (header # seq # rest) \<and> (header # seq # rest) ! (2 * 0) = h
        \<and> (header # seq # rest) ! (2 * 0 + 1) = v" by simp
    then show ?thesis by blast
  next
    case False
    then have "(h, v) \<in> set (pairs_of_lines rest)" using 1(2) by auto
    from 1(1) [OF this] obtain k where
      "2 * k + 1 < length rest" "rest ! (2 * k) = h" "rest ! (2 * k + 1) = v" by blast
    then have "2 * Suc k + 1 < length (header # seq # rest)
        \<and> (header # seq # rest) ! (2 * Suc k) = h
        \<and> (header # seq # rest) ! (2 * Suc k + 1) = v" by simp
    then show ?thesis by blast
  qed
qed simp_all

lemma map_of_rev_pairs_last:
  "2 * i + 1 < length xs \<Longrightarrow>
   (\<And>k. i < k \<Longrightarrow> 2 * k + 1 < length xs \<Longrightarrow> xs ! (2 * k) \<noteq> xs ! (2 * i)) \<Longrightarrow>
   map_of (rev (pairs_of_lines xs)) (xs ! (2 * i)) = Some (xs ! (2 * i + 1))"
proof (induction xs arbitrary: i rule: pairs_of_lines.induct)
  case (1 header seq rest)
  show ?case
  proof (cases i)
    case 0
    have "header \<notin> fst ` set (pairs_of_lines rest)"
    proof
      assume "header \<in> fst ` set (pairs_of_lines rest)"
      then obtain v where "(header, v) \<in> set (pairs_of_lines rest)" by auto
      then obtain k where k: "2 * k + 1 < length rest" "rest ! (2 * k) = header"
        using pairs_of_lines_index by blast
      then have "(header # seq # rest) ! (2 * (Suc k)) = header" by simp
      moreover have "2 * (Suc k) + 1 < length (header # seq # rest)" using k by simp
      ultimately show False using 1(3) [of "Suc k"] 0 by simp
    qed
    then have "map_of (rev (pairs_of_lines rest)) header = None"
      by (simp add: map_of_eq_None_iff)
    then show ?thesis using 0 by (simp add: map_add_def)
  next
    case (Suc j)
    have len: "2 * j + 1 < length rest" using 1(2) Suc by simp
    have later: "\<And>k. j < k \<Longrightarrow> 2 * k + 1 < length rest \<Longrightarrow> rest ! (2 * k) \<noteq> rest ! (2 * j)"
    proof -
      fix k assume "j < k" "2 * k + 1 < length rest"
      then show "rest ! (2 * k) \<noteq> rest ! (2 * j)"
        using 1(3) [of "Suc k"] Suc by simp
    qed
    have "map_of (rev (pairs_of_lines rest)) (rest ! (2 * j)) = Some (rest ! (2 * j + 1))"
      by (rule 1(1) [OF len later])
    then show ?thesis using Suc by (simp add: map_add_def)
  qed
qed simp_all


lemma unpaired_header_iff:
  "unpaired_header h \<longleftrightarrow>
     (\<exists>pre post. h = pre @ ''E+'' @ post) \<or> (\<exists>pre post. h = pre @ ''E-'' @ post)
       \<or> TAB \<notin> set h"
  unfolding unpaired_header_def contains_iff [of "''E+''"] contains_iff [of "''E-''"]
    contains_char by blast

lemma pair_loop_keys:
  assumes "2 * i + 1 < length xs"
  shows "(xs ! (2 * i) \<in> fst ` set (fst (pair_loop xs ([], []))) \<longleftrightarrow> unpaired_header (xs ! (2 * i)))
       \<and> (xs ! (2 * i) \<in> fst ` set (snd (pair_loop xs ([], []))) \<longleftrightarrow> \<not> unpaired_header (xs ! (2 * i)))"
proof -
  let ?h = "xs ! (2 * i)"
  have "?h \<in> fst ` set (rev (pairs_of_lines xs))"
    using pairs_of_lines_nth [OF assms] by force
  then have some: "map_of (rev (pairs_of_lines xs)) ?h \<noteq> None"
    by (simp only: map_of_eq_None_iff not_not)
  have mu: "map_of (fst (pair_loop xs ([], []))) ?h
      = (if unpaired_header ?h then map_of (rev (pairs_of_lines xs)) ?h else None)"
    by (simp add: map_of_unpaired)
  have mp: "map_of (snd (pair_loop xs ([], []))) ?h
      = (if \<not> unpaired_header ?h then map_of (rev (pairs_of_lines xs)) ?h else None)"
    by (simp add: map_of_paired)
  have ku: "?h \<in> fst ` set (fst (pair_loop xs ([], [])))
      \<longleftrightarrow> map_of (fst (pair_loop xs ([], []))) ?h \<noteq> None"
    by (simp only: map_of_eq_None_iff not_not)
  have kp: "?h \<in> fst ` set (snd (pair_loop xs ([], [])))
      \<longleftrightarrow> map_of (snd (pair_loop xs ([], []))) ?h \<noteq> None"
    by (simp only: map_of_eq_None_iff not_not)
  have u: "?h \<in> fst ` set (fst (pair_loop xs ([], []))) \<longleftrightarrow> unpaired_header ?h"
    unfolding ku mu using some by simp
  have p: "?h \<in> fst ` set (snd (pair_loop xs ([], []))) \<longleftrightarrow> \<not> unpaired_header ?h"
    unfolding kp mp using some by simp
  show ?thesis using u p by blast
qed

lemma pair_loop_value:
  assumes "2 * i + 1 < length xs"
    and "\<forall>k. i < k \<and> 2 * k + 1 < length xs \<longrightarrow> xs ! (2 * k) \<noteq> xs ! (2 * i)"
  shows "(xs ! (2 * i), xs ! (2 * i + 1))
           \<in> set (fst (pair_loop xs ([], []))) \<union> set (snd (pair_loop xs ([], [])))"
proof -
  let ?h = "xs ! (2 * i)" and ?v = "xs ! (2 * i + 1)"
  have last: "map_of (rev (pairs_of_lines xs)) ?h = Some ?v"
    using map_of_rev_pairs_last [OF assms(1)] assms(2) by blast
  show ?thesis
  proof (cases "unpaired_header ?h")
    case True
    then have "map_of (fst (pair_loop xs ([], []))) ?h = Some ?v"
      using last by (simp add: map_of_unpaired)
    then show ?thesis using map_of_SomeD by fast
  next
    case False
    then have "map_of (snd (pair_loop xs ([], []))) ?h = Some ?v"
      using last by (simp add: map_of_paired)
    then show ?thesis using map_of_SomeD by fast
  qed
qed

lemma process_chain_inline:
  assumes "prot_unpairedMsa json_chain = Some msa_text"
    and "length (split_on NL msa_text) \<noteq> 1 \<or> files msa_text = None"
  shows "\<exists>n s l. process_chain files json_chain =
           Inr (n, s, l, fst (pair_loop (split_on NL msa_text) ([], [])),
                snd (pair_loop (split_on NL msa_text) ([], [])))"
  using assms by (auto simp: process_chain_def Let_def split_beta)

lemma process_chain_file:
  assumes "prot_unpairedMsa json_chain = Some msa_text"
    and "length (split_on NL msa_text) = 1" and "files msa_text = Some file_lines"
  shows "\<exists>n s l. process_chain files json_chain =
           Inr (n, s, l, fst (pair_loop (clean_lines (tl file_lines)) ([], [])),
                snd (pair_loop (clean_lines (tl file_lines)) ([], [])))"
  using assms by (simp add: process_chain_def Let_def split_beta)

lemma process_chain_inline_odd:
  assumes "prot_unpairedMsa json_chain = Some msa_text"
    and "split_on NL msa_text = xs @ [last_line]" and "even (length xs)"
    and "xs \<noteq> [] \<or> files msa_text = None"
  shows "\<exists>n s l. process_chain files json_chain =
           Inr (n, s, l, fst (pair_loop xs ([], [])), snd (pair_loop xs ([], [])))"
proof -
  have "length (split_on NL msa_text) \<noteq> 1 \<or> files msa_text = None"
    using assms(2,4) by auto
  then have "\<exists>n s l. process_chain files json_chain =
           Inr (n, s, l, fst (pair_loop (split_on NL msa_text) ([], [])),
                snd (pair_loop (split_on NL msa_text) ([], [])))"
    using process_chain_inline [of json_chain msa_text files] assms(1) by blast
  then show ?thesis
    unfolding assms(2) pair_loop_odd [OF assms(3)] .
qed

lemma process_chain_file_odd:
  assumes "prot_unpairedMsa json_chain = Some msa_text"
    and "length (split_on NL msa_text) = 1" and "files msa_text = Some file_lines"
    and "clean_lines (tl file_lines) = ys @ [last_line]" and "even (length ys)"
  shows "\<exists>n s l. process_chain files json_chain =
           Inr (n, s, l, fst (pair_loop ys ([], [])), snd (pair_loop ys ([], [])))"
proof -
  have "\<exists>n s l. process_chain files json_chain =
           Inr (n, s, l, fst (pair_loop (clean_lines (tl file_lines)) ([], [])),
                snd (pair_loop (clean_lines (tl file_lines)) ([], [])))"
    using process_chain_file [of json_chain msa_text files file_lines] assms(1,2,3) by blast
  then show ?thesis
    unfolding assms(4) pair_loop_odd [OF assms(5)] .
qed

section \<open>Claims about the Pairing Classifier and \<open>process_chain\<close>\<close>

text \<open>
  Claim C8. The test of \<open>process_chain\<close> labels a header unpaired exactly when the
  header contains \<open>E+\<close>, or contains \<open>E-\<close>, or contains no tab character; and in the
  dictionaries that the loop builds from a list of lines, the header of every complete
  (header, sequence) pair is a key of the unpaired dictionary exactly under that
  condition and a key of the paired dictionary exactly when the condition fails.
\<close>

theorem C8_classifier:
  "(unpaired_header h \<longleftrightarrow>
      (\<exists>pre post. h = pre @ ''E+'' @ post) \<or> (\<exists>pre post. h = pre @ ''E-'' @ post)
        \<or> TAB \<notin> set h)
   \<and> (2 * i + 1 < length lines \<and> h = lines ! (2 * i) \<longrightarrow>
        (h \<in> fst ` set (fst (pair_loop lines ([], []))) \<longleftrightarrow>
           (\<exists>pre post. h = pre @ ''E+'' @ post) \<or> (\<exists>pre post. h = pre @ ''E-'' @ post)
             \<or> TAB \<notin> set h)
      \<and> (h \<in> fst ` set (snd (pair_loop lines ([], []))) \<longleftrightarrow>
           \<not> ((\<exists>pre post. h = pre @ ''E+'' @ post) \<or> (\<exists>pre post. h = pre @ ''E-'' @ post)
             \<or> TAB \<notin> set h)))"
proof (intro conjI impI)
  show "unpaired_header h \<longleftrightarrow>
      (\<exists>pre post. h = pre @ ''E+'' @ post) \<or> (\<exists>pre post. h = pre @ ''E-'' @ post)
        \<or> TAB \<notin> set h"
    by (rule unpaired_header_iff)
next
  assume a: "2 * i + 1 < length lines \<and> h = lines ! (2 * i)"
  then show "h \<in> fst ` set (fst (pair_loop lines ([], []))) \<longleftrightarrow>
           (\<exists>pre post. h = pre @ ''E+'' @ post) \<or> (\<exists>pre post. h = pre @ ''E-'' @ post)
             \<or> TAB \<notin> set h"
    using pair_loop_keys [of i lines] unpaired_header_iff [of h] by simp
next
  assume a: "2 * i + 1 < length lines \<and> h = lines ! (2 * i)"
  then show "h \<in> fst ` set (snd (pair_loop lines ([], []))) \<longleftrightarrow>
           \<not> ((\<exists>pre post. h = pre @ ''E+'' @ post) \<or> (\<exists>pre post. h = pre @ ''E-'' @ post)
             \<or> TAB \<notin> set h)"
    using pair_loop_keys [of i lines] unpaired_header_iff [of h] by simp
qed

theorem C8_classifier_witness:
  "2 * 1 + 1 < length [''>a'' @ [TAB] @ ''1.0E-5'', ''AB'', ''>b'' @ [TAB] @ ''c'', ''CD'', ''>d'', ''EF'']
   \<and> pair_loop [''>a'' @ [TAB] @ ''1.0E-5'', ''AB'', ''>b'' @ [TAB] @ ''c'', ''CD'', ''>d'', ''EF''] ([], [])
        = ([(''>a'' @ [TAB] @ ''1.0E-5'', ''AB''), (''>d'', ''EF'')], [(''>b'' @ [TAB] @ ''c'', ''CD'')])
   \<and> \<not> unpaired_header (''>b'' @ [TAB] @ ''c'')
   \<and> TAB \<in> set (''>b'' @ [TAB] @ ''c'')
   \<and> ''>b'' @ [TAB] @ ''c'' \<in> fst ` set (snd (pair_loop [''>a'' @ [TAB] @ ''1.0E-5'', ''AB'', ''>b'' @ [TAB] @ ''c'', ''CD'', ''>d'', ''EF''] ([], [])))"
proof -
  let ?lines = "[''>a'' @ [TAB] @ ''1.0E-5'', ''AB'', ''>b'' @ [TAB] @ ''c'', ''CD'', ''>d'', ''EF'']"
  have len: "2 * 1 + 1 < length ?lines" by simp
  have run: "pair_loop ?lines ([], [])
      = ([(''>a'' @ [TAB] @ ''1.0E-5'', ''AB''), (''>d'', ''EF'')], [(''>b'' @ [TAB] @ ''c'', ''CD'')])"
    by (simp add: unpaired_header_def startswith_def TAB_def)
  have cls: "\<not> unpaired_header (''>b'' @ [TAB] @ ''c'')"
    by (simp add: unpaired_header_def startswith_def TAB_def)
  have tab: "TAB \<in> set (''>b'' @ [TAB] @ ''c'')" by simp
  have nth: "''>b'' @ [TAB] @ ''c'' = ?lines ! (2 * 1)" by simp
  show ?thesis
    using C8_classifier [of "''>b'' @ [TAB] @ ''c''" 1 ?lines] len run cls tab nth
    by simp
qed

text \<open>
  Claim C10, as amended. A last line without a partner is not read: appending one line
  to an even number of lines leaves both dictionaries as they were, and the loop has no
  failing branch. The header of every complete pair at positions \<open>(2i, 2i + 1)\<close> is a
  key of exactly one of the two dictionaries, and the pair itself is stored there
  unless a later pair has the same header. \<open>process_chain\<close> applies the loop to the
  lines of the \<open>unpairedMsa\<close> text, split at newlines, when the text has more than one
  line or is a single line that is not the path of an existing file: for such a text
  with an odd number of lines it returns, without an error, the dictionaries of the
  text without its last line. When the text is a single line that is the path of an
  existing file, \<open>process_chain\<close> applies the loop to the lines of that file after
  the first, stripped and without the empty ones, instead, and an odd last line of
  these is not read either.
\<close>

theorem C10_odd_line_ignored:
  "(even (length lines) \<longrightarrow> pair_loop (lines @ [h]) d = pair_loop lines d)
   \<and> (2 * i + 1 < length lines \<longrightarrow>
        (lines ! (2 * i) \<in> fst ` set (fst (pair_loop lines ([], []))))
          \<noteq> (lines ! (2 * i) \<in> fst ` set (snd (pair_loop lines ([], []))))
        \<and> ((\<forall>k. i < k \<and> 2 * k + 1 < length lines \<longrightarrow> lines ! (2 * k) \<noteq> lines ! (2 * i)) \<longrightarrow>
             (lines ! (2 * i), lines ! (2 * i + 1))
               \<in> set (fst (pair_loop lines ([], []))) \<union> set (snd (pair_loop lines ([], [])))))
   \<and> (prot_unpairedMsa json_chain = Some msa_text
        \<and> (length (split_on NL msa_text) \<noteq> 1 \<or> files msa_text = None) \<longrightarrow>
        (\<exists>n s l. process_chain files json_chain =
           Inr (n, s, l, fst (pair_loop (split_on NL msa_text) ([], [])),
                snd (pair_loop (split_on NL msa_text) ([], [])))))
   \<and> (prot_unpairedMsa json_chain = Some msa_text
        \<and> split_on NL msa_text = xs @ [last_line] \<and> even (length xs)
        \<and> (xs \<noteq> [] \<or> files msa_text = None) \<longrightarrow>
        (\<exists>n s l. process_chain files json_chain =
           Inr (n, s, l, fst (pair_loop xs ([], [])), snd (pair_loop xs ([], [])))))
   \<and> (prot_unpairedMsa json_chain = Some msa_text
        \<and> length (split_on NL msa_text) = 1 \<and> files msa_text = Some file_lines \<longrightarrow>
        (\<exists>n s l. process_chain files json_chain =
           Inr (n, s, l, fst (pair_loop (clean_lines (tl file_lines)) ([], [])),
                snd (pair_loop (clean_lines (tl file_lines)) ([], [])))))
   \<and> (prot_unpairedMsa json_chain = Some msa_text
        \<and> length (split_on NL msa_text) = 1 \<and> files msa_text = Some file_lines
        \<and> clean_lines (tl file_lines) = ys @ [last_file_line] \<and> even (length ys) \<longrightarrow>
        (\<exists>n s l. process_chain files json_chain =
           Inr (n, s, l, fst (pair_loop ys ([], [])), snd (pair_loop ys ([], [])))))"
proof (intro conjI impI)
  show "pair_loop (lines @ [h]) d = pair_loop lines d" if "even (length lines)"
    using that by (rule pair_loop_odd)
next
  assume a: "2 * i + 1 < length lines"
  show "(lines ! (2 * i) \<in> fst ` set (fst (pair_loop lines ([], []))))
          \<noteq> (lines ! (2 * i) \<in> fst ` set (snd (pair_loop lines ([], []))))"
    using pair_loop_keys [OF a] by blast
  show "(lines ! (2 * i), lines ! (2 * i + 1))
               \<in> set (fst (pair_loop lines ([], []))) \<union> set (snd (pair_loop lines ([], [])))"
    if "\<forall>k. i < k \<and> 2 * k + 1 < length lines \<longrightarrow> lines ! (2 * k) \<noteq> lines ! (2 * i)"
    using pair_loop_value [OF a that] .
next
  assume "prot_unpairedMsa json_chain = Some msa_text
        \<and> (length (split_on NL msa_text) \<noteq> 1 \<or> files msa_text = None)"
  then show "\<exists>n s l. process_chain files json_chain =
           Inr (n, s, l, fst (pair_loop (split_on NL msa_text) ([], [])),
                snd (pair_loop (split_on NL msa_text) ([], [])))"
    using process_chain_inline [of json_chain msa_text files] by blast
next
  assume "prot_unpairedMsa json_chain = Some msa_text
        \<and> split_on NL msa_text = xs @ [last_line] \<and> even (length xs)
        \<and> (xs \<noteq> [] \<or> files msa_text = None)"
  then show "\<exists>n s l. process_chain files json_chain =
           Inr (n, s, l, fst (pair_loop xs ([], [])), snd (pair_loop xs ([], [])))"
    using process_chain_inline_odd [of json_chain msa_text xs last_line files] by blast
next
  assume "prot_unpairedMsa json_chain = Some msa_text
        \<and> length (split_on NL msa_text) = 1 \<and> files msa_text = Some file_lines"
  then show "\<exists>n s l. process_chain files json_chain =
           Inr (n, s, l, fst (pair_loop (clean_lines (tl file_lines)) ([], [])),
                snd (pair_loop (clean_lines (tl file_lines)) ([], [])))"
    using process_chain_file [of json_chain msa_text files file_lines] by blast
next
  assume "prot_unpairedMsa json_chain = Some msa_text
        \<and> length (split_on NL msa_text) = 1 \<and> files msa_text = Some file_lines
        \<and> clean_lines (tl file_lines) = ys @ [last_file_line] \<and> even (length ys)"
  then show "\<exists>n s l. process_chain files json_chain =
           Inr (n, s, l, fst (pair_loop ys ([], [])), snd (pair_loop ys ([], [])))"
    using process_chain_file_odd [of json_chain msa_text files file_lines ys last_file_line]
    by blast
qed

theorem C10_odd_line_ignored_witness:
  "even (length [''>a'' @ [TAB] @ ''b'', ''AB'', ''>c'', ''CD''])
   \<and> pair_loop ([''>a'' @ [TAB] @ ''b'', ''AB'', ''>c'', ''CD''] @ [''>e'']) ([], [])
        = ([(''>c'', ''CD'')], [(''>a'' @ [TAB] @ ''b'', ''AB'')])
   \<and> 2 * 1 + 1 < length [''>a'' @ [TAB] @ ''b'', ''AB'', ''>c'', ''CD'']
   \<and> (''>c'', ''CD'') \<in> set (fst (pair_loop [''>a'' @ [TAB] @ ''b'', ''AB'', ''>c'', ''CD''] ([], [])))
         \<union> set (snd (pair_loop [''>a'' @ [TAB] @ ''b'', ''AB'', ''>c'', ''CD''] ([], [])))
   \<and> split_on NL (''>a'' @ [TAB] @ ''b'' @ [NL] @ ''AB'' @ [NL] @ ''>c'')
        = [''>a'' @ [TAB] @ ''b'', ''AB''] @ [''>c'']
   \<and> process_chain
        (map_of [(''chainA.a3m'',
                  [''#2'' @ [TAB] @ ''1'' @ [NL], ''>a'' @ [TAB] @ ''b'' @ [NL], ''AB'' @ [NL], ''>c'' @ [NL]])])
        \<lparr>prot_id = [''A''], prot_copies = None, prot_sequence = ''AB'',
         prot_unpairedMsa = Some (''>a'' @ [TAB] @ ''b'' @ [NL] @ ''AB'' @ [NL] @ ''>c'')\<rparr>
        = Inr (1, ''AB'', 2, [], [(''>a'' @ [TAB] @ ''b'', ''AB'')])
   \<and> split_on NL [] = [] @ [[]]
   \<and> process_chain
        (map_of [(''chainA.a3m'',
                  [''#2'' @ [TAB] @ ''1'' @ [NL], ''>a'' @ [TAB] @ ''b'' @ [NL], ''AB'' @ [NL], ''>c'' @ [NL]])])
        \<lparr>prot_id = [''A''], prot_copies = None, prot_sequence = ''AB'',
         prot_unpairedMsa = Some []\<rparr>
        = Inr (1, ''AB'', 2, [], [])
   \<and> length (split_on NL ''chainA.a3m'') = 1
   \<and> clean_lines (tl [''#2'' @ [TAB] @ ''1'' @ [NL], ''>a'' @ [TAB] @ ''b'' @ [NL], ''AB'' @ [NL], ''>c'' @ [NL]])
        = [''>a'' @ [TAB] @ ''b'', ''AB''] @ [''>c'']
   \<and> process_chain
        (map_of [(''chainA.a3m'',
                  [''#2'' @ [TAB] @ ''1'' @ [NL], ''>a'' @ [TAB] @ ''b'' @ [NL], ''AB'' @ [NL], ''>c'' @ [NL]])])
        \<lparr>prot_id = [''A''], prot_copies = None, prot_sequence = ''AB'',
         prot_unpairedMsa = Some ''chainA.a3m''\<rparr>
        = Inr (1, ''AB'', 2, [], [(''>a'' @ [TAB] @ ''b'', ''AB'')])"
proof -
  let ?lines = "[''>a'' @ [TAB] @ ''b'', ''AB'', ''>c'', ''CD'']"
  let ?xs = "[''>a'' @ [TAB] @ ''b'', ''AB'']"
  let ?fl = "[''#2'' @ [TAB] @ ''1'' @ [NL], ''>a'' @ [TAB] @ ''b'' @ [NL], ''AB'' @ [NL], ''>c'' @ [NL]]"
  let ?F = "map_of [(''chainA.a3m'', ?fl)]"
  let ?tB = "''>a'' @ [TAB] @ ''b'' @ [NL] @ ''AB'' @ [NL] @ ''>c''"
  let ?cB = "\<lparr>prot_id = [''A''], prot_copies = None, prot_sequence = ''AB'',
         prot_unpairedMsa = Some ?tB\<rparr>"
  let ?cE = "\<lparr>prot_id = [''A''], prot_copies = None, prot_sequence = ''AB'',
         prot_unpairedMsa = Some []\<rparr>"
  let ?cF = "\<lparr>prot_id = [''A''], prot_copies = None, prot_sequence = ''AB'',
         prot_unpairedMsa = Some ''chainA.a3m''\<rparr>"
  have ev: "even (length ?lines)" by simp
  have len: "2 * 1 + 1 < length ?lines" by simp
  have run: "pair_loop ?lines ([], []) = ([(''>c'', ''CD'')], [(''>a'' @ [TAB] @ ''b'', ''AB'')])"
    by (simp add: unpaired_header_def startswith_def TAB_def)
  have odd: "pair_loop (?lines @ [''>e'']) ([], []) = pair_loop ?lines ([], [])"
    using C10_odd_line_ignored [where lines = ?lines and h = "''>e''" and d = "([], [])"] ev by blast
  have mem: "(''>c'', ''CD'') \<in> set (fst (pair_loop ?lines ([], []))) \<union> set (snd (pair_loop ?lines ([], [])))"
    unfolding run by simp
  have runx: "pair_loop ?xs ([], []) = ([], [(''>a'' @ [TAB] @ ''b'', ''AB'')])"
    by (simp add: unpaired_header_def startswith_def TAB_def)
  have spB: "split_on NL ?tB = ?xs @ [''>c'']"
    by (simp add: NL_def TAB_def)
  have spE: "split_on NL [] = [] @ [[]]" by simp
  have spF: "length (split_on NL ''chainA.a3m'') = 1" by (simp add: NL_def)
  have FE: "?F [] = None" by simp
  have FF: "?F ''chainA.a3m'' = Some ?fl" by simp
  have cl: "clean_lines (tl ?fl) = ?xs @ [''>c'']"
    by (simp add: clean_lines_def strip_def isspace_def TAB_def NL_def)
  have exB: "\<exists>n s l. process_chain ?F ?cB =
      Inr (n, s, l, fst (pair_loop ?xs ([], [])), snd (pair_loop ?xs ([], [])))"
    using C10_odd_line_ignored [where json_chain = ?cB and msa_text = ?tB and xs = ?xs and last_line = "''>c''"
        and files = ?F] spB
    by simp
  have exE: "\<exists>n s l. process_chain ?F ?cE =
      Inr (n, s, l, fst (pair_loop [] ([], [])), snd (pair_loop [] ([], [])))"
    using C10_odd_line_ignored [where json_chain = ?cE and msa_text = "[]" and xs = "[]" and last_line = "[]"
        and files = ?F] spE FE
    by simp
  have exF: "\<exists>n s l. process_chain ?F ?cF =
      Inr (n, s, l, fst (pair_loop ?xs ([], [])), snd (pair_loop ?xs ([], [])))"
    using C10_odd_line_ignored [where json_chain = ?cF and msa_text = "''chainA.a3m''" and files = ?F
        and file_lines = ?fl and ys = ?xs and last_file_line = "''>c''"] spF FF cl
    by simp
  have fields: "process_chain ?F c = Inr d \<Longrightarrow>
      fst d = (case prot_copies c of Some n \<Rightarrow> n | None \<Rightarrow> int (length (prot_id c)))
      \<and> fst (snd d) = prot_sequence c \<and> fst (snd (snd d)) = length (prot_sequence c)" for c d
    by (auto simp: process_chain_def Let_def split_beta split: option.splits)
  have pB: "process_chain ?F ?cB = Inr (1, ''AB'', 2, [], [(''>a'' @ [TAB] @ ''b'', ''AB'')])"
    using exB fields [of ?cB] unfolding runx by auto
  have pE: "process_chain ?F ?cE = Inr (1, ''AB'', 2, [], [])"
    using exE fields [of ?cE] by auto
  have pF: "process_chain ?F ?cF = Inr (1, ''AB'', 2, [], [(''>a'' @ [TAB] @ ''b'', ''AB'')])"
    using exF fields [of ?cF] unfolding runx by auto
  show ?thesis
    using ev len odd run mem spB pB spE pE spF cl pF by simp
qed

text \<open>
  Claim C10 as stated fails for a one-line text that names an existing file: the text
  \<open>>h\<close> has one line, without a partner, and with a file of that name holding the
  lines \<open>>h\<close> and \<open>A\<close> after its first, that line is a key of the unpaired dictionary.
\<close>

theorem C10_counterexample:
  "split_on NL ''>h'' = [''>h'']
   \<and> process_chain (map_of [(''>h'', [''#1'' @ [TAB] @ ''1'' @ [NL], ''>h'' @ [NL], ''A'' @ [NL]])])
        \<lparr>prot_id = [''A''], prot_copies = None, prot_sequence = ''A'',
         prot_unpairedMsa = Some ''>h''\<rparr>
      = Inr (1, ''A'', 1, [(''>h'', ''A'')], [])"
  by (simp add: process_chain_def Let_def NL_def TAB_def clean_lines_def strip_def isspace_def
      unpaired_header_def startswith_def)

section \<open>Properties of the paired merge\<close>

lemma chain_seqs_eq:
  "j + length ds \<le> length seqlens \<Longrightarrow>
   chain_seqs key j ds seqlens acc =
     Inr (acc @ map (\<lambda>(d, l). case map_of d key of Some s \<Rightarrow> s | None \<Rightarrow> replicate l CHR ''-'')
                  (zip ds (drop j seqlens)))"
proof (induction ds arbitrary: j acc)
  case Nil
  show ?case by simp
next
  case (Cons d ds)
  have j: "j < length seqlens" and rest: "(j + 1) + length ds \<le> length seqlens"
    using Cons.prems by simp_all
  have dr: "drop j seqlens = seqlens ! j # drop (j + 1) seqlens"
    using j by (simp add: Cons_nth_drop_Suc)
  show ?case
    using Cons.IH [OF rest] j unfolding dr
    by (simp add: item_def split: option.splits)
qed

lemma paired_loop_eq:
  "length ds \<le> length seqlens \<Longrightarrow>
   paired_loop keys ds seqlens acc =
     Inr (acc @ concat (map (\<lambda>key. [key, concat (map (\<lambda>(d, l). case map_of d key of Some s \<Rightarrow> s
                                                        | None \<Rightarrow> replicate l CHR ''-'')
                                             (zip ds seqlens))]) keys))"
proof (induction keys arbitrary: acc)
  case Nil
  show ?case by simp
next
  case (Cons key keys)
  have "chain_seqs key 0 ds seqlens [] =
      Inr (map (\<lambda>(d, l). case map_of d key of Some s \<Rightarrow> s | None \<Rightarrow> replicate l CHR ''-'')
             (zip ds seqlens))"
    using chain_seqs_eq [of 0 ds seqlens key "[]"] Cons.prems by simp
  then show ?case using Cons.IH [OF Cons.prems] by simp
qed

lemma all_keys_eq:
  "all_keys ds = sorted_list_of_set (\<Union>d \<in> set ds. dom (map_of d))"
proof -
  have "set (concat (map (map fst) ds)) = (\<Union>d \<in> set ds. dom (map_of d))"
    by (auto simp: dom_map_of_conv_image_fst)
  then show ?thesis
    unfolding all_keys_def by (metis sorted_list_of_set_sort_remdups)
qed

lemma same_maps_rows:
  assumes "length ds' = length ds" and "\<forall>j < length ds. map_of (ds' ! j) = map_of (ds ! j)"
  shows "map (\<lambda>(d, l). case map_of d key of Some s \<Rightarrow> s | None \<Rightarrow> replicate l CHR ''-'') (zip ds' seqlens)
       = map (\<lambda>(d, l). case map_of d key of Some s \<Rightarrow> s | None \<Rightarrow> replicate l CHR ''-'') (zip ds seqlens)"
  using assms by (intro nth_equalityI) simp_all

lemma same_maps_keys_sub:
  assumes "length ds' = length ds" and "\<forall>j < length ds. map_of (ds' ! j) = map_of (ds ! j)"
  shows "(\<Union>d \<in> set ds'. dom (map_of d)) \<subseteq> (\<Union>d \<in> set (ds :: string dict list). dom (map_of d))"
proof
  fix x assume "x \<in> (\<Union>d \<in> set ds'. dom (map_of d))"
  then obtain d where d: "d \<in> set ds'" "x \<in> dom (map_of d)" by blast
  then obtain j where j: "j < length ds'" "ds' ! j = d" by (auto simp: in_set_conv_nth)
  then have "map_of (ds ! j) = map_of d" using assms by auto
  then have "x \<in> dom (map_of (ds ! j))" using d(2) by simp
  moreover have "ds ! j \<in> set ds" using j assms(1) by simp
  ultimately show "x \<in> (\<Union>d \<in> set ds. dom (map_of d))" by blast
qed

lemma same_maps_keys:
  assumes "length ds' = length ds" and "\<forall>j < length ds. map_of (ds' ! j) = map_of (ds ! j)"
  shows "(\<Union>d \<in> set ds'. dom (map_of d)) = (\<Union>d \<in> set (ds :: string dict list). dom (map_of d))"
proof
  show "(\<Union>d \<in> set ds'. dom (map_of d)) \<subseteq> (\<Union>d \<in> set ds. dom (map_of d))"
    using same_maps_keys_sub [OF assms] .
  have "\<forall>j < length ds'. map_of (ds ! j) = map_of (ds' ! j)" using assms by simp
  then show "(\<Union>d \<in> set ds. dom (map_of d)) \<subseteq> (\<Union>d \<in> set ds'. dom (map_of d))"
    using same_maps_keys_sub [of ds ds'] assms(1) by simp
qed

lemma build_paired_msa_eq:
  assumes "length seqlens = length paired_list"
  shows "build_paired_msa paired_list seqlens =
     Inr (concat (map (\<lambda>key. [key, concat (map (\<lambda>(d, l). case map_of d key of Some s \<Rightarrow> s
                                                     | None \<Rightarrow> replicate l CHR ''-'')
                                          (zip paired_list seqlens))])
                      (sorted_list_of_set (\<Union>d \<in> set paired_list. dom (map_of d)))))"
  unfolding build_paired_msa_def all_keys_eq
  using paired_loop_eq [of paired_list seqlens _ "[]"] assms by simp

lemma build_paired_msa_same_maps:
  assumes "length seqlens = length paired_list" and "length paired_list' = length paired_list"
    and "\<forall>j < length paired_list. map_of (paired_list' ! j) = map_of (paired_list ! j)"
  shows "build_paired_msa paired_list' seqlens = build_paired_msa paired_list seqlens"
proof -
  have l': "length seqlens = length paired_list'" using assms by simp
  show ?thesis
    unfolding build_paired_msa_eq [OF assms(1)] build_paired_msa_eq [OF l']
      same_maps_keys [OF assms(2,3)] same_maps_rows [OF assms(2,3)] ..
qed

section \<open>Claim about the paired merge\<close>

text \<open>
  Claim C7. With one declared length per chain, \<open>build_paired_msa\<close> returns, for each
  header of the sorted union of the keys of all chains' paired dictionaries, in that
  order and once, the header followed by the concatenation in chain order of the
  chain's sequence for the header, or of a run of \<open>-\<close> of the chain's declared length
  where the chain has no such header. The result depends on the dictionaries only as
  mappings: two lists of dictionaries that hold the same entries, inserted in any
  order, give the same output.
\<close>

theorem C7_paired_merge:
  assumes "length seqlens = length paired_list"
  shows "build_paired_msa paired_list seqlens =
     Inr (concat (map (\<lambda>key. [key, concat (map (\<lambda>(d, l). case map_of d key of Some s \<Rightarrow> s
                                                     | None \<Rightarrow> replicate l CHR ''-'')
                                          (zip paired_list seqlens))])
                      (sorted_list_of_set (\<Union>d \<in> set paired_list. dom (map_of d)))))
   \<and> (\<forall>paired_list'.
         length paired_list' = length paired_list
         \<and> (\<forall>j < length paired_list. map_of (paired_list' ! j) = map_of (paired_list ! j))
         \<longrightarrow> build_paired_msa paired_list' seqlens = build_paired_msa paired_list seqlens)"
  using build_paired_msa_eq [OF assms] build_paired_msa_same_maps [OF assms] by blast

theorem C7_paired_merge_witness:
  "length [1, 2 :: nat] = length [[(''b'', ''X''), (''a'', ''Y'')], [(''a'', ''ZZ'')]]
   \<and> build_paired_msa [[(''b'', ''X''), (''a'', ''Y'')], [(''a'', ''ZZ'')]] [1, 2]
        = Inr [''a'', ''YZZ'', ''b'', ''X--'']
   \<and> build_paired_msa [[(''a'', ''Y''), (''b'', ''X'')], [(''a'', ''ZZ'')]] [1, 2]
        = Inr [''a'', ''YZZ'', ''b'', ''X--'']"
proof -
  let ?pl = "[[(''b'', ''X''), (''a'', ''Y'')], [(''a'', ''ZZ'')]] :: string dict list"
  let ?pl' = "[[(''a'', ''Y''), (''b'', ''X'')], [(''a'', ''ZZ'')]] :: string dict list"
  have len: "length [1, 2 :: nat] = length ?pl" by simp
  have run: "build_paired_msa ?pl [1, 2] = Inr [''a'', ''YZZ'', ''b'', ''X--'']"
    by (simp add: build_paired_msa_def all_keys_def item_def eval_nat_numeral)
  have same: "\<forall>j < length ?pl. map_of (?pl' ! j) = map_of (?pl ! j)"
    by (auto simp: fun_eq_iff less_Suc_eq)
  have "length ?pl' = length ?pl" by simp
  then have "build_paired_msa ?pl' [1, 2] = build_paired_msa ?pl [1, 2]"
    using C7_paired_merge [OF len] same by blast
  then show ?thesis using run by simp
qed

section \<open>Properties of \<open>get_data_from_a3m\<close>\<close>

lemma get_data_mismatch_iff:
  assumes "3 \<le> length a3m_lines"
    and "split_on TAB (strip_char CHR ''#'' (strip (a3m_lines ! 0))) = header0 # header1 # others"
    and "map_int (split_on CHR '','' header0) = Inr chain_lens"
  shows "(\<exists>a b. get_data_from_a3m a3m_lines = Inl (LengthMismatch a b))
           \<longleftrightarrow> int (length (strip (a3m_lines ! 2))) \<noteq> sum_list chain_lens"
proof -
  have l: "a3m_lines \<noteq> []" "Suc 0 < length a3m_lines" "2 < length a3m_lines"
    using assms(1) by auto
  show ?thesis
    using l assms(2,3) by (simp add: get_data_from_a3m_def item_def Let_def)
qed

lemma get_data_mmseqs_mismatch_iff:
  assumes "3 \<le> length a3m_lines"
    and "split_on TAB (strip_char CHR ''#'' (strip (a3m_lines ! 0))) = header0 # others"
    and "map_int (split_on CHR '','' header0) = Inr chain_lens"
  shows "(\<exists>a b. get_data_from_a3m_mmseqs a3m_lines = Inl (LengthMismatch a b))
           \<longleftrightarrow> int (length (strip (a3m_lines ! 2))) \<noteq> sum_list chain_lens"
proof -
  have l: "a3m_lines \<noteq> []" "Suc 0 < length a3m_lines" "2 < length a3m_lines"
    using assms(1) by auto
  show ?thesis
    using l assms(2,3) by (simp add: get_data_from_a3m_mmseqs_def item_def Let_def)
qed

lemma process_a3m_file_abort:
  "get_data_from_a3m (clean_lines file_lines) = Inl e \<Longrightarrow> process_a3m_file file_lines = Inl e"
  by (simp add: process_a3m_file_def)

lemma visible_no_lower:
  "\<forall>c \<in> set q. \<not> islower c \<Longrightarrow> visible q = length q"
  by (simp add: visible_def)

section \<open>Claim about the length check of \<open>get_data_from_a3m\<close>\<close>

text \<open>
  Claim C6, as amended. For an alignment of at least three lines whose header line
  parses, both versions of \<open>get_data_from_a3m\<close> raise the length-mismatch error
  exactly when the number of characters of the stripped query (third) row, lowercase
  insertion characters included, differs from the sum of the declared chain lengths;
  \<open>process_a3m_file\<close> then stops with that error before any output is written. For a
  query row without lowercase characters this number is the row's visible length.
\<close>

theorem C6_length_mismatch:
  assumes "3 \<le> length a3m_lines"
    and "split_on TAB (strip_char CHR ''#'' (strip (a3m_lines ! 0))) = header0 # header1 # others"
    and "map_int (split_on CHR '','' header0) = Inr chain_lens"
  shows "((\<exists>a b. get_data_from_a3m a3m_lines = Inl (LengthMismatch a b))
            \<longleftrightarrow> int (length (strip (a3m_lines ! 2))) \<noteq> sum_list chain_lens)
       \<and> ((\<exists>a b. get_data_from_a3m_mmseqs a3m_lines = Inl (LengthMismatch a b))
            \<longleftrightarrow> int (length (strip (a3m_lines ! 2))) \<noteq> sum_list chain_lens)
       \<and> (int (length (strip (a3m_lines ! 2))) \<noteq> sum_list chain_lens
            \<and> a3m_lines = clean_lines file_lines
            \<longrightarrow> (\<exists>a b. process_a3m_file file_lines = Inl (LengthMismatch a b)))
       \<and> ((\<forall>c \<in> set (strip (a3m_lines ! 2)). \<not> islower c)
            \<longrightarrow> visible (strip (a3m_lines ! 2)) = length (strip (a3m_lines ! 2)))"
proof (intro conjI impI)
  show c: "(\<exists>a b. get_data_from_a3m a3m_lines = Inl (LengthMismatch a b))
            \<longleftrightarrow> int (length (strip (a3m_lines ! 2))) \<noteq> sum_list chain_lens"
    by (rule get_data_mismatch_iff [OF assms])
  show "(\<exists>a b. get_data_from_a3m_mmseqs a3m_lines = Inl (LengthMismatch a b))
            \<longleftrightarrow> int (length (strip (a3m_lines ! 2))) \<noteq> sum_list chain_lens"
    by (rule get_data_mmseqs_mismatch_iff [OF assms])
  show "\<exists>a b. process_a3m_file file_lines = Inl (LengthMismatch a b)"
    if "int (length (strip (a3m_lines ! 2))) \<noteq> sum_list chain_lens
            \<and> a3m_lines = clean_lines file_lines"
    using that c process_a3m_file_abort [of file_lines] by blast
  show "visible (strip (a3m_lines ! 2)) = length (strip (a3m_lines ! 2))"
    if "\<forall>c \<in> set (strip (a3m_lines ! 2)). \<not> islower c"
    using that by (rule visible_no_lower)
qed


theorem C6_length_mismatch_witness:
  "3 \<le> length [''#3,2'' @ [TAB] @ ''1,1'', ''>101'' @ [TAB] @ ''102'', ''ABCxDE'']
   \<and> split_on TAB (strip_char CHR ''#'' (strip (''#3,2'' @ [TAB] @ ''1,1''))) = [''3,2'', ''1,1'']
   \<and> map_int (split_on CHR '','' ''3,2'') = Inr [3, 2]
   \<and> int (visible ''ABCxDE'') = sum_list [3, 2]
   \<and> get_data_from_a3m [''#3,2'' @ [TAB] @ ''1,1'', ''>101'' @ [TAB] @ ''102'', ''ABCxDE'']
        = Inl (LengthMismatch 6 5)
   \<and> (\<exists>a b. process_a3m_file
          [''#3,2'' @ [TAB] @ ''1,1'' @ [NL], ''>101'' @ [TAB] @ ''102'' @ [NL], ''ABCxDE'' @ [NL]]
            = Inl (LengthMismatch a b))"
proof -
  let ?lines = "[''#3,2'' @ [TAB] @ ''1,1'', ''>101'' @ [TAB] @ ''102'', ''ABCxDE'']"
  let ?raw = "[''#3,2'' @ [TAB] @ ''1,1'' @ [NL], ''>101'' @ [TAB] @ ''102'' @ [NL], ''ABCxDE'' @ [NL]]"
  have len: "3 \<le> length ?lines" by simp
  have hdr: "split_on TAB (strip_char CHR ''#'' (strip (?lines ! 0))) = ''3,2'' # ''1,1'' # []"
    by (simp add: strip_def strip_char_def isspace_def TAB_def)
  have ints: "map_int (split_on CHR '','' ''3,2'') = Inr [3, 2]"
    by (simp add: py_int_def strip_def isspace_def isdigit_def)
  have vis: "int (visible ''ABCxDE'') = sum_list [3, 2]"
    by (simp add: visible_def islower_def)
  have q: "strip (?lines ! 2) = ''ABCxDE''"
    by (simp add: strip_def isspace_def)
  have cl: "?lines = clean_lines ?raw"
    by (simp add: clean_lines_def strip_def isspace_def TAB_def NL_def)
  have ne: "int (length (strip (?lines ! 2))) \<noteq> sum_list [3, 2]"
    unfolding q by simp
  note inst = C6_length_mismatch [OF len hdr ints, of ?raw]
  have run: "get_data_from_a3m ?lines = Inl (LengthMismatch 6 5)"
    using len hdr ints q by (simp add: get_data_from_a3m_def item_def Let_def)
  have pf: "\<exists>a b. process_a3m_file ?raw = Inl (LengthMismatch a b)"
    using inst ne cl by blast
  show ?thesis
    using len hdr ints vis run pf by simp
qed

text \<open>
  Claim C6 as stated fails: the query row \<open>ABx\<close> has visible length two, the declared
  lengths sum to three, and no error is raised, because the check counts all three
  characters.
\<close>

theorem C6_counterexample:
  "int (visible (strip ''ABx'')) \<noteq> sum_list [3]
   \<and> get_data_from_a3m [''#3'' @ [TAB] @ ''1'', ''>101'', ''ABx'']
        = Inr ([3], [''101''], [''ABx''], ''3'', [''1''])
   \<and> get_data_from_a3m_mmseqs [''#3'' @ [TAB] @ ''1'', ''>101'', ''ABx'']
        = Inr ([3], [''101''], [''ABx''])"
proof -
  let ?lines = "[''#3'' @ [TAB] @ ''1'', ''>101'', ''ABx'']"
  have hdr: "split_on TAB (strip_char CHR ''#'' (strip (''#3'' @ [TAB] @ ''1''))) = [''3'', ''1'']"
    by (simp add: strip_def strip_char_def isspace_def TAB_def)
  have ints: "map_int (split_on CHR '','' ''3'') = Inr [3]"
    by (simp add: py_int_def strip_def isspace_def isdigit_def)
  have names: "split_on TAB (strip_char CHR ''>'' (strip ''>101'')) = [''101'']"
    by (simp add: strip_def strip_char_def isspace_def TAB_def)
  have q: "strip ''ABx'' = ''ABx''"
    by (simp add: strip_def isspace_def)
  have sp: "split_sequence_by_chains ''ABx'' [3] = [''ABx'']"
    by (simp add: split_sequence_by_chains_def islower_def)
  have vis: "int (visible (strip ''ABx'')) \<noteq> sum_list [3]"
    unfolding q by (simp add: visible_def islower_def)
  have one: "split_on CHR '','' ''1'' = [''1'']" by simp
  have run: "get_data_from_a3m ?lines = Inr ([3], [''101''], [''ABx''], ''3'', [''1''])"
    unfolding get_data_from_a3m_def using hdr ints names q sp one
    by (simp add: item_def Let_def)
  have run2: "get_data_from_a3m_mmseqs ?lines = Inr ([3], [''101''], [''ABx''])"
    unfolding get_data_from_a3m_mmseqs_def using hdr ints names q sp
    by (simp add: item_def Let_def)
  show ?thesis using vis run run2 by blast
qed

section \<open>Properties of the loop of the removal transform\<close>

lemma emit_simps:
  "st_skip (emit x s) = st_skip s"
  "st_edit_msa (emit x s) = st_edit_msa s"
  "st_lengths (emit x s) = st_lengths s"
  "st_new_lines (emit x s) = st_new_lines s @ x"
  by (simp_all add: emit_def)

lemma emit_emit: "emit y (emit x s) = emit (x @ y) s"
  by (simp add: emit_def)

lemma emit_Nil: "emit [] s = s"
  by (simp add: emit_def)

lemma run_plain_step:
  "plain_row p l \<Longrightarrow> \<not> st_edit_msa s \<Longrightarrow>
     run p s (l # rest) = (if \<not> st_skip s then run p (emit l s) rest else run p s rest)"
  by (auto simp: plain_row_def)

lemma run_plain_skip:
  "\<forall>l \<in> set xs. plain_row p l \<Longrightarrow> \<not> st_edit_msa s \<Longrightarrow> st_skip s \<Longrightarrow>
     run p s (xs @ rest) = run p s rest"
  by (induction xs) (simp_all add: run_plain_step del: run.simps)

lemma run_plain_pass:
  "\<forall>l \<in> set xs. plain_row p l \<Longrightarrow> \<not> st_edit_msa s \<Longrightarrow> \<not> st_skip s \<Longrightarrow>
     run p s (xs @ rest) = run p (emit (concat xs) s) rest"
proof (induction xs arbitrary: s)
  case Nil
  show ?case by (simp add: emit_Nil)
next
  case (Cons x xs)
  have "run p s ((x # xs) @ rest) = run p (emit x s) (xs @ rest)"
    using Cons.prems by (simp add: run_plain_step del: run.simps)
  also have "\<dots> = run p (emit (concat xs) (emit x s)) rest"
    using Cons.prems by (intro Cons.IH) (simp_all add: emit_simps)
  finally show ?case by (simp add: emit_emit)
qed

lemma run_kept_step:
  assumes "kept_row p l" and "\<not> st_edit_msa s" and "\<not> st_skip s"
  shows "run p s (l # rest) = run p (emit l s) rest"
proof (cases "startswith ''>'' l \<and> \<not> contains [TAB] l")
  case True
  have "s\<lparr>st_skip := False, st_edit_msa := False\<rparr> = s"
    using assms(2,3) by simp
  then show ?thesis
    using True assms(1) by (simp add: kept_row_def)
next
  case False
  then have "plain_row p l" using assms(1) by (auto simp: kept_row_def plain_row_def)
  then show ?thesis using assms(2,3) by (simp add: run_plain_step del: run.simps)
qed

lemma run_kept_pass:
  "\<forall>l \<in> set xs. kept_row p l \<Longrightarrow> \<not> st_edit_msa s \<Longrightarrow> \<not> st_skip s \<Longrightarrow>
     run p s (xs @ rest) = run p (emit (concat xs) s) rest"
proof (induction xs arbitrary: s)
  case Nil
  show ?case by (simp add: emit_Nil)
next
  case (Cons x xs)
  have "run p s ((x # xs) @ rest) = run p (emit x s) (xs @ rest)"
    using Cons.prems by (simp add: run_kept_step del: run.simps)
  also have "\<dots> = run p (emit (concat xs) (emit x s)) rest"
    using Cons.prems by (intro Cons.IH) (simp_all add: emit_simps)
  finally show ?case by (simp add: emit_emit)
qed

lemma run_header:
  assumes "startswith ''#'' line" and "split_ws (tl line) = [lens, stoich]"
  shows "run p s (line # rest) =
     (if p > int (length (split_on CHR '','' lens)) \<or> p = 0 then Inl UsageExit
      else run p (emit line (s\<lparr>st_lengths := split_on CHR '','' lens\<rparr>)) rest)"
  using assms by (simp add: Let_def)

lemma run_marker:
  assumes "\<not> startswith ''#'' line" and "contains (''>101'' @ [TAB] @ ''102'') line"
  shows "run p s (line # next_line # rest) =
     run p (emit next_line (emit line (if length (st_lengths s) > 2 then s\<lparr>st_edit_msa := True\<rparr>
                                       else s\<lparr>st_skip := True\<rparr>))) rest"
  using assms by (simp add: Let_def)

lemma run_target:
  assumes "\<not> startswith ''#'' line" and "\<not> contains (''>101'' @ [TAB] @ ''102'') line"
    and "startswith (''>10'' @ str_int p) line"
  shows "run p s (line # next_line # rest) =
     run p (emit next_line (emit line (s\<lparr>st_skip := True\<rparr>))) rest"
  using assms by (simp add: Let_def)

lemma run_other_chain:
  assumes "\<not> startswith ''#'' line" and "\<not> contains (''>101'' @ [TAB] @ ''102'') line"
    and "\<not> startswith (''>10'' @ str_int p) line"
    and "startswith ''>'' line" and "\<not> contains [TAB] line"
  shows "run p s (line # rest) =
     run p (emit line (s\<lparr>st_skip := False, st_edit_msa := False\<rparr>)) rest"
  using assms by simp

lemma str_int_2: "str_int 2 = ''2''"
  by code_simp

lemmas eval_defs = main_def init_state_def emit_def split_ws_def isspace_def startswith_def
  TAB_def NL_def str_int_2 Let_def

section \<open>Claims about the Chain-Column Removal Transform\<close>

text \<open>
  Claim C1, evaluated on the code. With declared lengths \<open>[3,4,2]\<close> and target chain 2,
  the paired row \<open>ABCDEFGHI\<close> is rewritten to \<open>ABC----DE\<close>: the width is nine and chain
  2's columns are \<open>----\<close>, but chain 3's columns are \<open>DE\<close>, the first columns of the
  removed chain, and not the input's \<open>HI\<close>.
\<close>

theorem C1_edit_paired_shifts:
  "edit_row 2 [''3'', ''4'', ''2''] (''ABCDEFGHI'' @ [NL]) = Inr (''ABC----DE'' @ [NL])
   \<and> main 2 [''#3,4,2'' @ [TAB] @ ''1,1,1'' @ [NL],
              ''>101'' @ [TAB] @ ''102'' @ [TAB] @ ''103'' @ [NL], ''ABCDEFGHI'' @ [NL],
              ''>h1'' @ [TAB] @ ''h2'' @ [TAB] @ ''h3'' @ [NL], ''ABCDEFGHI'' @ [NL]]
        = Inr ((''#3,4,2'' @ [TAB] @ ''1,1,1'' @ [NL])
               @ (''>101'' @ [TAB] @ ''102'' @ [TAB] @ ''103'' @ [NL]) @ (''ABCDEFGHI'' @ [NL])
               @ (''>h1'' @ [TAB] @ ''h2'' @ [TAB] @ ''h3'' @ [NL]) @ (''ABC----DE'' @ [NL]))"
proof -
  have ints: "py_int ''3'' = Some 3" "py_int ''4'' = Some 4" "py_int ''2'' = Some 2"
    by (simp_all add: py_int_def strip_def isspace_def isdigit_def)
  have row: "edit_row 2 [''3'', ''4'', ''2''] (''ABCDEFGHI'' @ [NL]) = Inr (''ABC----DE'' @ [NL])"
    by (simp add: edit_row_def ints isupper_def NL_def eval_nat_numeral)
  show ?thesis
    using row by (simp add: eval_defs)
qed

text \<open>
  Claim C2, as amended. Take an alignment that declares exactly two chains and is laid
  out as: header line; paired-block marker \<open>>101 102\<close> with the row after it; further
  rows of the paired block; chain 1's header \<open>>101\<close> with its rows; chain 2's header
  \<open>>102\<close> with the row after it; further rows of chain 2. Let no further row of the
  paired block or of chain 2 start with \<open>#\<close>, contain the marker, start with \<open>>102\<close>
  or be a header without a tab, and let no row of chain 1 start with \<open>#\<close>, contain
  the marker or start with \<open>>102\<close>. Then removing chain 2 writes: the header line; the
  marker row and the row after it, unchanged; none of the further rows of the paired
  block; chain 1's header and all of its rows, unchanged; chain 2's header and the row
  after it, unchanged; and none of the further rows of chain 2.
\<close>

theorem C2_two_chains:
  assumes "startswith ''#'' hdr" and "split_ws (tl hdr) = [lens, stoich]"
    and "length (split_on CHR '','' lens) = 2"
    and "\<forall>l \<in> set paired_rows. plain_row 2 l"
    and "\<forall>l \<in> set chain1_rows. kept_row 2 l"
    and "\<forall>l \<in> set chain2_rows. plain_row 2 l"
  shows "main 2 ([hdr, ''>101'' @ [TAB] @ ''102'' @ [NL], query] @ paired_rows
                 @ [''>101'' @ [NL]] @ chain1_rows
                 @ [''>102'' @ [NL], query2] @ chain2_rows)
         = Inr (hdr @ (''>101'' @ [TAB] @ ''102'' @ [NL]) @ query
                @ (''>101'' @ [NL]) @ concat chain1_rows @ (''>102'' @ [NL]) @ query2)"
proof -
  let ?mk = "''>101'' @ [TAB] @ ''102'' @ [NL]"
  let ?h1 = "''>101'' @ [NL]" and ?h2 = "''>102'' @ [NL]"
  let ?R4 = "[?h2, query2] @ chain2_rows"
  let ?R3 = "[?h1] @ chain1_rows @ ?R4"
  let ?R2 = "paired_rows @ ?R3"
  define s1 where "s1 = emit hdr (init_state\<lparr>st_lengths := split_on CHR '','' lens\<rparr>)"
  define s2 where "s2 = emit query (emit ?mk (s1\<lparr>st_skip := True\<rparr>))"
  define s3 where "s3 = emit ?h1 (s2\<lparr>st_skip := False, st_edit_msa := False\<rparr>)"
  define s4 where "s4 = emit (concat chain1_rows) s3"
  define s5 where "s5 = emit query2 (emit ?h2 (s4\<lparr>st_skip := True\<rparr>))"
  have mk: "\<not> startswith ''#'' ?mk" "contains (''>101'' @ [TAB] @ ''102'') ?mk"
    by (simp_all add: startswith_def)
  have h1: "\<not> startswith ''#'' ?h1" "\<not> contains (''>101'' @ [TAB] @ ''102'') ?h1"
    "\<not> startswith (''>10'' @ str_int 2) ?h1" "startswith ''>'' ?h1" "\<not> contains [TAB] ?h1"
    by (simp_all add: startswith_def str_int_2 TAB_def NL_def)
  have h2: "\<not> startswith ''#'' ?h2" "\<not> contains (''>101'' @ [TAB] @ ''102'') ?h2"
    "startswith (''>10'' @ str_int 2) ?h2"
    by (simp_all add: startswith_def str_int_2 TAB_def NL_def)
  have f1: "st_skip s1 = False" "st_edit_msa s1 = False" "length (st_lengths s1) = 2"
    using assms(3) by (simp_all add: s1_def emit_def init_state_def)
  have f2: "st_skip s2" "\<not> st_edit_msa s2"
    using f1 by (simp_all add: s2_def emit_def)
  have f3: "\<not> st_skip s3" "\<not> st_edit_msa s3"
    by (simp_all add: s3_def emit_def)
  have f5: "st_skip s5" "\<not> st_edit_msa s5"
    using f3 by (simp_all add: s5_def s4_def emit_def)
  have "run 2 init_state (hdr # ?mk # query # ?R2) = run 2 s1 (?mk # query # ?R2)"
    unfolding run_header [OF assms(1,2)] s1_def using assms(3) by simp
  also have "\<dots> = run 2 s2 ?R2"
    unfolding run_marker [OF mk] s2_def using f1 by simp
  also have "\<dots> = run 2 s2 ?R3"
    using run_plain_skip [OF assms(4), of s2 ?R3] f2 by simp
  also have "\<dots> = run 2 s3 (chain1_rows @ ?R4)"
    using run_other_chain [OF h1, of s2 "chain1_rows @ ?R4"] by (simp add: s3_def)
  also have "\<dots> = run 2 s4 ?R4"
    using run_kept_pass [OF assms(5), of s3 ?R4] f3 by (simp add: s4_def)
  also have "\<dots> = run 2 s5 (chain2_rows @ [])"
    using run_target [OF h2, of s4 query2 chain2_rows] by (simp add: s5_def)
  also have "\<dots> = Inr s5"
    using run_plain_skip [OF assms(6), of s5 "[]"] f5 by simp
  finally have r: "run 2 init_state (hdr # ?mk # query # ?R2) = Inr s5" .
  have out: "st_new_lines s5 = hdr @ ?mk @ query @ ?h1 @ concat chain1_rows @ ?h2 @ query2"
    by (simp add: s5_def s4_def s3_def s2_def s1_def emit_def init_state_def)
  have "main 2 (hdr # ?mk # query # ?R2) = Inr (st_new_lines s5)"
    unfolding main_def r by simp
  then show ?thesis unfolding out by simp
qed

theorem C2_two_chains_witness:
  "startswith ''#'' (''#3,2'' @ [TAB] @ ''1,1'' @ [NL])
   \<and> split_ws (tl (''#3,2'' @ [TAB] @ ''1,1'' @ [NL])) = [''3,2'', ''1,1'']
   \<and> length (split_on CHR '','' ''3,2'') = 2
   \<and> plain_row 2 (''>h1'' @ [TAB] @ ''h2'' @ [NL]) \<and> plain_row 2 (''ABCDE'' @ [NL])
   \<and> kept_row 2 (''ABC--'' @ [NL]) \<and> kept_row 2 (''>u1'' @ [NL])
   \<and> kept_row 2 (''AB---'' @ [NL])
   \<and> plain_row 2 (''>u2'' @ [TAB] @ ''9'' @ [NL]) \<and> plain_row 2 (''---D-'' @ [NL])
   \<and> main 2 [''#3,2'' @ [TAB] @ ''1,1'' @ [NL],
              ''>101'' @ [TAB] @ ''102'' @ [NL], ''ABCDE'' @ [NL],
              ''>h1'' @ [TAB] @ ''h2'' @ [NL], ''ABCDE'' @ [NL],
              ''>101'' @ [NL], ''ABC--'' @ [NL], ''>u1'' @ [NL], ''AB---'' @ [NL],
              ''>102'' @ [NL], ''---DE'' @ [NL], ''>u2'' @ [TAB] @ ''9'' @ [NL], ''---D-'' @ [NL]]
        = Inr ((''#3,2'' @ [TAB] @ ''1,1'' @ [NL])
               @ (''>101'' @ [TAB] @ ''102'' @ [NL]) @ (''ABCDE'' @ [NL])
               @ (''>101'' @ [NL]) @ (''ABC--'' @ [NL]) @ (''>u1'' @ [NL])
               @ (''AB---'' @ [NL])
               @ (''>102'' @ [NL]) @ (''---DE'' @ [NL]))"
proof -
  let ?hdr = "''#3,2'' @ [TAB] @ ''1,1'' @ [NL]"
  have a1: "startswith ''#'' ?hdr" by (simp add: startswith_def)
  have a2: "split_ws (tl ?hdr) = [''3,2'', ''1,1'']"
    by (simp add: split_ws_def isspace_def TAB_def NL_def)
  have a3: "length (split_on CHR '','' ''3,2'') = 2" by simp
  have p1: "plain_row 2 (''>h1'' @ [TAB] @ ''h2'' @ [NL])" "plain_row 2 (''ABCDE'' @ [NL])"
    by (simp_all add: plain_row_def startswith_def str_int_2 TAB_def NL_def)
  have p2: "kept_row 2 (''ABC--'' @ [NL])" "kept_row 2 (''>u1'' @ [NL])"
    "kept_row 2 (''AB---'' @ [NL])"
    by (simp_all add: kept_row_def startswith_def str_int_2 TAB_def NL_def)
  have p3: "plain_row 2 (''>u2'' @ [TAB] @ ''9'' @ [NL])" "plain_row 2 (''---D-'' @ [NL])"
    by (simp_all add: plain_row_def startswith_def str_int_2 TAB_def NL_def)
  have b1: "\<forall>l \<in> set [''>h1'' @ [TAB] @ ''h2'' @ [NL], ''ABCDE'' @ [NL]]. plain_row 2 l"
    using p1 by simp
  have b2: "\<forall>l \<in> set [''ABC--'' @ [NL], ''>u1'' @ [NL], ''AB---'' @ [NL]]. kept_row 2 l"
    using p2 by simp
  have b3: "\<forall>l \<in> set [''>u2'' @ [TAB] @ ''9'' @ [NL], ''---D-'' @ [NL]]. plain_row 2 l"
    using p3 by simp
  show ?thesis
    using C2_two_chains [OF a1 a2 a3 b1 b2 b3, of "''ABCDE'' @ [NL]" "''---DE'' @ [NL]"]
      a1 a2 a3 p1 p2 p3
    by simp
qed

text \<open>
  Claim C2 as stated fails: in this two-chain alignment the marker row \<open>>101 102\<close>, the
  row after it, chain 2's header \<open>>102\<close> and the row after it are all written to the
  output; only the later rows of the two blocks are dropped.
\<close>

theorem C2_counterexample:
  "main 2 [''#3,2'' @ [TAB] @ ''1,1'' @ [NL],
           ''>101'' @ [TAB] @ ''102'' @ [NL], ''ABCDE'' @ [NL],
           ''>h1'' @ [TAB] @ ''h2'' @ [NL], ''ABCDE'' @ [NL],
           ''>102'' @ [NL], ''---DE'' @ [NL], ''>u2'' @ [TAB] @ ''9'' @ [NL], ''---D-'' @ [NL]]
     = Inr ((''#3,2'' @ [TAB] @ ''1,1'' @ [NL])
            @ (''>101'' @ [TAB] @ ''102'' @ [NL]) @ (''ABCDE'' @ [NL])
            @ (''>102'' @ [NL]) @ (''---DE'' @ [NL]))"
  by (simp add: eval_defs)

text \<open>
  Claim C5, as amended. When the first line is a header line that splits into its two
  fields and the requested chain index is \<open>0\<close> or greater than the number of declared
  chain lengths, \<open>main\<close> stops with the usage exit and writes no output, whatever the
  remaining lines are.
\<close>

theorem C5_invalid_index:
  assumes "startswith ''#'' line" and "split_ws (tl line) = [lens, stoich]"
    and "peptide = 0 \<or> peptide > int (length (split_on CHR '','' lens))"
  shows "main peptide (line # rest) = Inl UsageExit"
  using assms(3) unfolding main_def run_header [OF assms(1,2)] by auto

theorem C5_invalid_index_witness:
  "startswith ''#'' (''#3,4,2'' @ [TAB] @ ''1,1,1'' @ [NL])
   \<and> split_ws (tl (''#3,4,2'' @ [TAB] @ ''1,1,1'' @ [NL])) = [''3,4,2'', ''1,1,1'']
   \<and> (5::int) > int (length (split_on CHR '','' ''3,4,2''))
   \<and> main 5 [''#3,4,2'' @ [TAB] @ ''1,1,1'' @ [NL],
              ''>101'' @ [TAB] @ ''102'' @ [TAB] @ ''103'' @ [NL], ''ABCDEFGHI'' @ [NL]]
        = Inl UsageExit
   \<and> main 0 [''#3,4,2'' @ [TAB] @ ''1,1,1'' @ [NL],
              ''>101'' @ [TAB] @ ''102'' @ [TAB] @ ''103'' @ [NL], ''ABCDEFGHI'' @ [NL]]
        = Inl UsageExit"
proof -
  let ?hdr = "''#3,4,2'' @ [TAB] @ ''1,1,1'' @ [NL]"
  have a1: "startswith ''#'' ?hdr" by (simp add: startswith_def)
  have a2: "split_ws (tl ?hdr) = [''3,4,2'', ''1,1,1'']"
    by (simp add: split_ws_def isspace_def TAB_def NL_def)
  have a3: "(5::int) = 0 \<or> (5::int) > int (length (split_on CHR '','' ''3,4,2''))" by simp
  have a4: "(0::int) = 0 \<or> (0::int) > int (length (split_on CHR '','' ''3,4,2''))" by simp
  show ?thesis
    using C5_invalid_index [OF a1 a2 a3] C5_invalid_index [OF a1 a2 a4] a1 a2 by simp
qed

text \<open>
  Claim C5 as stated fails for a negative index: with \<open>--chain -1\<close> and three declared
  chains nothing stops the run, and the three lines are written to the output.
\<close>

theorem C5_counterexample:
  "main (- 1) [''#3,4,2'' @ [TAB] @ ''1,1,1'' @ [NL],
             ''>101'' @ [TAB] @ ''102'' @ [TAB] @ ''103'' @ [NL], ''ABCDEFGHI'' @ [NL]]
     = Inr ((''#3,4,2'' @ [TAB] @ ''1,1,1'' @ [NL])
            @ (''>101'' @ [TAB] @ ''102'' @ [TAB] @ ''103'' @ [NL]) @ (''ABCDEFGHI'' @ [NL]))"
  by (simp add: eval_defs)

section \<open>Claim about the round trip through the per-chain alignments\<close>

text \<open>
  Claim C4, evaluated on the code. The alignment with chain lengths \<open>1,1\<close>, the paired
  row \<open>(>101 102, AB)\<close> and the unpaired row \<open>(>101, A-)\<close> is split into two per-chain
  alignments; classified and merged back, it gives the paired row \<open>(>101 102, AB)\<close>
  and two unpaired rows, \<open>(>101, A-)\<close> and \<open>(>101, --)\<close>: the all-gap segment that
  chain 2 received comes back as a row of its own, so the unpaired rows are not those
  of the input. Through the JSON of a local job the per-chain lines are joined without
  a separator, \<open>process_chain\<close> then finds a single line, and only the header line
  comes back.
\<close>

theorem C4_round_trip_adds_rows:
  "split_msa_vertically [1, 1] [''101'', ''102'']
       [''>101'' @ [TAB] @ ''102'', ''AB'', ''>101'', ''A-'']
     = Inr [(''101'', [''>101'' @ [TAB] @ ''102'', ''A'', ''>101'', ''A'']),
            (''102'', [''>101'' @ [TAB] @ ''102'', ''B'', ''>101'', ''-''])]
   \<and> pair_loop [''>101'' @ [TAB] @ ''102'', ''A'', ''>101'', ''A''] ([], [])
     = ([(''>101'', ''A'')], [(''>101'' @ [TAB] @ ''102'', ''A'')])
   \<and> pair_loop [''>101'' @ [TAB] @ ''102'', ''B'', ''>101'', ''-''] ([], [])
     = ([(''>101'', ''-'')], [(''>101'' @ [TAB] @ ''102'', ''B'')])
   \<and> build_paired_msa [[(''>101'' @ [TAB] @ ''102'', ''A'')], [(''>101'' @ [TAB] @ ''102'', ''B'')]] [1, 1]
     = Inr [''>101'' @ [TAB] @ ''102'', ''AB'']
   \<and> build_unpaired_msa [1, 1] [[(''>101'', ''A'')], [(''>101'', ''-'')]]
     = [''>101'', ''A-'', ''>101'', ''--'']
   \<and> a3m_to_json [''#1,1'' @ [TAB] @ ''1,1'' @ [NL], ''>101'' @ [TAB] @ ''102'' @ [NL],
                   ''AB'' @ [NL], ''>101'' @ [NL], ''A-'' @ [NL]]
     = Inr [\<lparr>prot_id = [''A''], prot_copies = Some 1, prot_sequence = ''A'',
             prot_unpairedMsa = Some (''>101'' @ [TAB] @ ''102'' @ ''A'' @ ''>101'' @ ''A'')\<rparr>,
            \<lparr>prot_id = [''B''], prot_copies = Some 1, prot_sequence = ''B'',
             prot_unpairedMsa = Some (''>101'' @ [TAB] @ ''102'' @ ''B'' @ ''>101'' @ ''-'')\<rparr>]
   \<and> process_json_file (\<lambda>path. None)
       [\<lparr>prot_id = [''A''], prot_copies = Some 1, prot_sequence = ''A'',
         prot_unpairedMsa = Some (''>101'' @ [TAB] @ ''102'' @ ''A'' @ ''>101'' @ ''A'')\<rparr>,
        \<lparr>prot_id = [''B''], prot_copies = Some 1, prot_sequence = ''B'',
         prot_unpairedMsa = Some (''>101'' @ [TAB] @ ''102'' @ ''B'' @ ''>101'' @ ''-'')\<rparr>]
     = Inr [''#1,1'' @ [TAB] @ ''1,1'']"
proof -
  have sp: "split_sequence_by_chains ''AB'' [1, 1] = [''A'', ''B'']"
    "split_sequence_by_chains ''A-'' [1, 1] = [''A'', ''-'']"
    by (simp_all add: split_sequence_by_chains_def islower_def)
  have st: "strip ''AB'' = ''AB''" "strip ''A-'' = ''A-''"
    by (simp_all add: strip_def isspace_def)
  have v: "split_msa_vertically [1, 1] [''101'', ''102'']
       [''>101'' @ [TAB] @ ''102'', ''AB'', ''>101'', ''A-'']
     = Inr [(''101'', [''>101'' @ [TAB] @ ''102'', ''A'', ''>101'', ''A'']),
            (''102'', [''>101'' @ [TAB] @ ''102'', ''B'', ''>101'', ''-''])]"
    by (simp add: split_msa_vertically_def startswith_def st sp item_def dict_append_def
        AList.update.simps)
  have p1: "pair_loop [''>101'' @ [TAB] @ ''102'', ''A'', ''>101'', ''A''] ([], [])
     = ([(''>101'', ''A'')], [(''>101'' @ [TAB] @ ''102'', ''A'')])"
    by (simp add: unpaired_header_def startswith_def TAB_def)
  have p2: "pair_loop [''>101'' @ [TAB] @ ''102'', ''B'', ''>101'', ''-''] ([], [])
     = ([(''>101'', ''-'')], [(''>101'' @ [TAB] @ ''102'', ''B'')])"
    by (simp add: unpaired_header_def startswith_def TAB_def)
  have bp: "build_paired_msa [[(''>101'' @ [TAB] @ ''102'', ''A'')], [(''>101'' @ [TAB] @ ''102'', ''B'')]] [1, 1]
     = Inr [''>101'' @ [TAB] @ ''102'', ''AB'']"
    by (simp add: build_paired_msa_def all_keys_def item_def)
  have bu: "build_unpaired_msa [1, 1] [[(''>101'', ''A'')], [(''>101'', ''-'')]]
     = [''>101'', ''A-'', ''>101'', ''--'']"
    by (simp add: build_unpaired_msa_def)
  have js: "a3m_to_json [''#1,1'' @ [TAB] @ ''1,1'' @ [NL], ''>101'' @ [TAB] @ ''102'' @ [NL],
                   ''AB'' @ [NL], ''>101'' @ [NL], ''A-'' @ [NL]]
     = Inr [\<lparr>prot_id = [''A''], prot_copies = Some 1, prot_sequence = ''A'',
             prot_unpairedMsa = Some (''>101'' @ [TAB] @ ''102'' @ ''A'' @ ''>101'' @ ''A'')\<rparr>,
            \<lparr>prot_id = [''B''], prot_copies = Some 1, prot_sequence = ''B'',
             prot_unpairedMsa = Some (''>101'' @ [TAB] @ ''102'' @ ''B'' @ ''>101'' @ ''-'')\<rparr>]"
    by code_simp
  have jb: "process_json_file (\<lambda>path. None)
       [\<lparr>prot_id = [''A''], prot_copies = Some 1, prot_sequence = ''A'',
         prot_unpairedMsa = Some (''>101'' @ [TAB] @ ''102'' @ ''A'' @ ''>101'' @ ''A'')\<rparr>,
        \<lparr>prot_id = [''B''], prot_copies = Some 1, prot_sequence = ''B'',
         prot_unpairedMsa = Some (''>101'' @ [TAB] @ ''102'' @ ''B'' @ ''>101'' @ ''-'')\<rparr>]
     = Inr [''#1,1'' @ [TAB] @ ''1,1'']"
    by code_simp
  show ?thesis using v p1 p2 bp bu js jb by blast
qed

end
